theory Spec2Isabelle
  imports Main "HOL-Library.AList"
begin

section \<open>Errors\<close>

text \<open>
  Every \<^verbatim>\<open>throw\<close> of the sources is a value of \<open>js_error\<close>:
  \<^item> \<open>AsyncIdError c\<close>: the \<^verbatim>\<open>Error\<close> of \<^verbatim>\<open>getMiddlewareName\<close> for class \<open>c\<close>
    whose \<^verbatim>\<open>id()\<close> returned a Promise;
  \<^item> \<open>SkippedDependency a b\<close> and \<open>MissingDependency a b\<close>: the two \<^verbatim>\<open>Error\<close>s of
    \<^verbatim>\<open>resolveMiddleware\<close> (dependent \<open>a\<close>, dependency \<open>b\<close>);
  \<^item> \<open>NodeDoesNotExist n\<close> and \<open>DependencyCycle p\<close>: the errors of the dependency graph;
  \<^item> \<open>HandledError\<close>: the sentinel class of \<^verbatim>\<open>ErrorHandler.ts\<close>;
  \<^item> \<open>TypeError m\<close>: the runtime's error for calling something that is not a function;
  \<^item> \<open>AppError m\<close>: any other error raised by a middleware or a route handler.
\<close>

datatype js_error =
    AsyncIdError string
  | SkippedDependency string string
  | MissingDependency string string
  | NodeDoesNotExist string
  | DependencyCycle "string list"
  | HandledError
  | TypeError string
  | AppError string

section \<open>Middleware references and identities\<close>

text \<open>
  A middleware class is read through its static properties only: \<^verbatim>\<open>name\<close>,
  \<^verbatim>\<open>namespace\<close> (absent: \<open>None\<close>) and, for the class of an instance,
  \<^verbatim>\<open>dependencies\<close>. A dependency or a skip entry is a string or a class
  (\<^verbatim>\<open>string | Type<Middleware>\<close>). An instance has its class
  (\<^verbatim>\<open>constructor\<close>), what its optional \<^verbatim>\<open>id()\<close> method returns, and its
  \<^verbatim>\<open>handle\<close> method, of a type \<open>'h\<close> fixed later.
\<close>

record class_ref =
  cls_name :: string
  cls_namespace :: "string option"

datatype reference = RefString string | RefClass class_ref

datatype id_method = NoId | SyncId string | AsyncId

record 'h Middleware =
  constructor :: class_ref
  dependencies :: "reference list"
  id_method :: id_method
  handle :: 'h

datatype 'h mw_arg = ArgString string | ArgClass class_ref | ArgObject "'h Middleware"

fun arg_of :: "reference \<Rightarrow> 'h mw_arg" where
  "arg_of (RefString s) = ArgString s"
| "arg_of (RefClass c) = ArgClass c"

text \<open>
  JavaScript truthiness of an optional string (\<^verbatim>\<open>undefined\<close> and the empty string
  are falsy), and the string an optional string becomes under \<^verbatim>\<open>+\<close>.
\<close>

fun truthy :: "string option \<Rightarrow> bool" where
  "truthy None = False"
| "truthy (Some s) = (s \<noteq> [])"

fun js_to_string :: "string option \<Rightarrow> string" where
  "js_to_string None = ''undefined''"
| "js_to_string (Some s) = s"

text \<open>
  \<^verbatim>\<open>getMiddlewareName\<close> (part_000, lines 53-78). In the object branch the local
  \<^verbatim>\<open>namespace\<close> is declared without a value and assigned only when the class has a
  truthy namespace; the \<^verbatim>\<open>return\<close> concatenates it either way.
\<close>

fun getMiddlewareName :: "'h mw_arg \<Rightarrow> js_error + string" where
  "getMiddlewareName (ArgString s) = Inr s"
| "getMiddlewareName (ArgClass c) =
     Inr (if truthy (cls_namespace c)
          then the (cls_namespace c) @ ''.'' @ cls_name c
          else cls_name c)"
| "getMiddlewareName (ArgObject m) =
     (let namespace = (if truthy (cls_namespace (constructor m))
                       then Some (the (cls_namespace (constructor m)) @ ''.'')
                       else None)
      in case id_method m of
           AsyncId \<Rightarrow> Inl (AsyncIdError (cls_name (constructor m)))
         | NoId \<Rightarrow> Inr (js_to_string namespace @ cls_name (constructor m))
         | SyncId i \<Rightarrow>
             Inr (js_to_string namespace @ (if i \<noteq> [] then i else cls_name (constructor m))))"

section \<open>Configuration\<close>

text \<open>
  \<^verbatim>\<open>StrateConfiguration\<close> (default.ts): three optional properties. The module's
  default configuration sets \<^verbatim>\<open>debug\<close> only.
\<close>

record 'h StrateConfiguration =
  debug :: "bool option"
  middleware :: "'h Middleware list option"
  skip :: "reference list option"

definition DefaultConfiguration :: "'h StrateConfiguration" where
  "DefaultConfiguration = \<lparr>debug = Some False, middleware = None, skip = None\<rparr>"

fun or_default :: "'a \<Rightarrow> 'a option \<Rightarrow> 'a" where
  "or_default d None = d"
| "or_default d (Some x) = x"

text \<open>Names of a list of instances, stopping at the first \<^verbatim>\<open>id()\<close> that throws.\<close>

fun names_of :: "'h Middleware list \<Rightarrow> js_error + string list" where
  "names_of [] = Inr []"
| "names_of (m # ms) =
     (case getMiddlewareName (ArgObject m) of
        Inl e \<Rightarrow> Inl e
      | Inr n \<Rightarrow> (case names_of ms of Inl e \<Rightarrow> Inl e | Inr ns \<Rightarrow> Inr (n # ns)))"

text \<open>
  The \<^verbatim>\<open>filter\<close> of \<^verbatim>\<open>loadConfiguration\<close>: keeps the instances whose name is not in
  the resolved skip list; a throwing \<^verbatim>\<open>getMiddlewareName\<close> ends it.
\<close>

fun remove_skipped :: "string list \<Rightarrow> 'h Middleware list \<Rightarrow> js_error + 'h Middleware list" where
  "remove_skipped resolvedSkip [] = Inr []"
| "remove_skipped resolvedSkip (m # ms) =
     (case getMiddlewareName (ArgObject m) of
        Inl e \<Rightarrow> Inl e
      | Inr n \<Rightarrow>
          (case remove_skipped resolvedSkip ms of
             Inl e \<Rightarrow> Inl e
           | Inr kept \<Rightarrow> Inr (if n \<in> set resolvedSkip then kept else m # kept)))"

text \<open>
  \<^verbatim>\<open>skip.map(getMiddlewareName)\<close>: skip entries are strings and classes, for which
  \<^verbatim>\<open>getMiddlewareName\<close> never throws.
\<close>

fun resolve_ref :: "reference \<Rightarrow> string" where
  "resolve_ref (RefString s) = s"
| "resolve_ref (RefClass c) =
     (if truthy (cls_namespace c) then the (cls_namespace c) @ ''.'' @ cls_name c else cls_name c)"

text \<open>
  \<^verbatim>\<open>Object.assign(target, source)\<close> on configuration objects: every property the
  source has is written onto the target.
\<close>

definition Object_assign ::
  "'h StrateConfiguration \<Rightarrow> 'h StrateConfiguration \<Rightarrow> 'h StrateConfiguration" where
  "Object_assign tgt source =
     \<lparr>debug = (case debug source of Some b \<Rightarrow> Some b | None \<Rightarrow> debug tgt),
      middleware = (case middleware source of Some ms \<Rightarrow> Some ms | None \<Rightarrow> middleware tgt),
      skip = (case skip source of Some rs \<Rightarrow> Some rs | None \<Rightarrow> skip tgt)\<rparr>"

text \<open>
  The rest patterns of the two parameters of \<^verbatim>\<open>loadConfiguration\<close>: a new object
  with every property of the argument but the ones the pattern names
  (\<^verbatim>\<open>middleware\<close> for the base; \<^verbatim>\<open>middleware\<close> and \<^verbatim>\<open>skip\<close> for the route).
\<close>

definition base_rest :: "'h StrateConfiguration \<Rightarrow> 'h StrateConfiguration" where
  "base_rest c = c\<lparr>middleware := None\<rparr>"

definition route_rest :: "'h StrateConfiguration \<Rightarrow> 'h StrateConfiguration" where
  "route_rest c = c\<lparr>middleware := None, skip := None\<rparr>"

text \<open>
  \<^verbatim>\<open>loadConfiguration\<close> (part_000, lines 111-127), on values: the contents of the
  object that \<^verbatim>\<open>Object.assign\<close> returns, or the error of a throwing
  \<^verbatim>\<open>getMiddlewareName\<close>.
\<close>

definition loadConfiguration ::
  "'h StrateConfiguration \<Rightarrow> 'h StrateConfiguration \<Rightarrow> js_error + 'h StrateConfiguration" where
  "loadConfiguration base route =
     (let baseMiddleware = or_default [] (middleware base);
          baseConfiguration = base_rest base;
          routeMiddleware = or_default [] (middleware route);
          routeConfiguration = route_rest route;
          resolvedSkip = map resolve_ref (or_default [] (skip route))
      in case remove_skipped resolvedSkip (baseMiddleware @ routeMiddleware) of
           Inl e \<Rightarrow> Inl e
         | Inr kept \<Rightarrow>
             Inr (Object_assign (Object_assign baseConfiguration routeConfiguration)
                    \<lparr>debug = None, middleware = Some kept,
                     skip = Some (map RefString resolvedSkip)\<rparr>))"

subsection \<open>Configuration objects by reference\<close>

text \<open>
  Objects live in a store and are passed by address, so that one can say which object a
  call writes to. \<^verbatim>\<open>loadConfiguration\<close> receives the addresses of its two
  arguments. Destructuring \<^verbatim>\<open>undefined\<close> (no object at the address) is a
  \<^verbatim>\<open>TypeError\<close>. Each rest pattern allocates a new object; \<^verbatim>\<open>Object.assign\<close>
  writes onto its first argument, the rest object of the base, and returns its address.
\<close>

type_synonym address = nat

type_synonym 'h store = "'h StrateConfiguration list"

definition alloc :: "'h StrateConfiguration \<Rightarrow> 'h store \<Rightarrow> address \<times> 'h store" where
  "alloc obj h = (length h, h @ [obj])"

definition loadConfiguration_at ::
  "address \<Rightarrow> address \<Rightarrow> 'h store \<Rightarrow> js_error + (address \<times> 'h store)" where
  "loadConfiguration_at base route h =
     (if \<not> base < length h \<or> \<not> route < length h
      then Inl (TypeError ''Cannot destructure property of undefined'')
      else
        let (baseConfiguration, h1) = alloc (base_rest (h ! base)) h;
            (routeConfiguration, h2) = alloc (route_rest (h ! route)) h1
        in case loadConfiguration (h ! base) (h ! route) of
             Inl e \<Rightarrow> Inl e
           | Inr merged \<Rightarrow> Inr (baseConfiguration, h2[baseConfiguration := merged]))"

section \<open>Loggers\<close>

text \<open>
  The console is the list of lines \<^verbatim>\<open>console.debug\<close> has written.
  \<^verbatim>\<open>createLoggers\<close> (part_000, lines 132-148) returns \<^verbatim>\<open>[ debug, warn ]\<close>; both
  write only when the configuration's \<^verbatim>\<open>debug\<close> is truthy. The colouring by
  \<^verbatim>\<open>chalk\<close> is left out of the line.
\<close>

type_synonym console = "string list"

type_synonym ConsoleHelper = "string \<Rightarrow> console \<Rightarrow> console"

definition createLoggers :: "'h StrateConfiguration \<Rightarrow> ConsoleHelper \<times> ConsoleHelper" where
  "createLoggers configuration =
     ((\<lambda>message out. if debug configuration = Some True
                      then out @ [''[ Strate - debug ] '' @ message] else out),
      (\<lambda>message out. if debug configuration = Some True
                      then out @ [''[ Strate - warning ] '' @ message] else out))"

section \<open>The context object\<close>

text \<open>
  Values a context holds. \<open>VObject\<close> is a plain object (its own properties, in insertion
  order; its prototype is \<^verbatim>\<open>Object.prototype\<close>), \<open>VConfiguration\<close> the configuration
  stored by \<^verbatim>\<open>createContext\<close>, \<open>VFunction\<close> a logger, \<open>VResponder c m s\<close> the
  \<^verbatim>\<open>error\<close> closure of an \<^verbatim>\<open>ErrorHandler\<close> with defaults \<open>c\<close>, \<open>m\<close>, \<open>s\<close>, and
  \<open>VInherited n\<close> what \<^verbatim>\<open>Object.prototype\<close> gives under the name \<open>n\<close>: its built-in
  functions, such as \<^verbatim>\<open>toString\<close> and \<^verbatim>\<open>hasOwnProperty\<close>, and under
  \<^verbatim>\<open>__proto__\<close>, for an object whose prototype it is, \<^verbatim>\<open>Object.prototype\<close> itself.
\<close>

datatype 'c jsval =
    Undefined
  | VNull
  | VString string
  | VNumber int
  | VBoolean bool
  | VObject "(string \<times> 'c jsval) list"
  | VConfiguration 'c
  | VFunction ConsoleHelper
  | VResponder string string nat
  | VInherited string

text \<open>The names of the properties of \<^verbatim>\<open>Object.prototype\<close>, and the object itself.\<close>

definition Object_prototype_keys :: "string list" where
  "Object_prototype_keys =
     [''constructor'', ''__defineGetter__'', ''__defineSetter__'', ''hasOwnProperty'',
      ''__lookupGetter__'', ''__lookupSetter__'', ''isPrototypeOf'', ''propertyIsEnumerable'',
      ''toString'', ''valueOf'', ''__proto__'', ''toLocaleString'']"

definition Object_prototype :: "'c jsval" where
  "Object_prototype = VInherited ''__proto__''"

text \<open>
  An object is given by its prototype and its own properties. The built-in
  \<^verbatim>\<open>hasOwnProperty\<close> looks at the own properties only. \<^verbatim>\<open>Reflect.get\<close> follows
  the prototype chain: a key that is no own property is looked up on the prototype, if
  there is one: among the own properties of a plain object, then on
  \<^verbatim>\<open>Object.prototype\<close>, whose accessor \<^verbatim>\<open>__proto__\<close> yields the prototype; and a
  key found nowhere yields \<^verbatim>\<open>undefined\<close>. (What a function or a configuration used
  as a prototype adds to \<^verbatim>\<open>Object.prototype\<close> is not modelled.)
\<close>

definition hasOwnProperty :: "(string \<times> 'c jsval) list \<Rightarrow> string \<Rightarrow> bool" where
  "hasOwnProperty obj property = (map_of obj property \<noteq> None)"

definition from_Object_prototype :: "'c jsval \<Rightarrow> string \<Rightarrow> 'c jsval" where
  "from_Object_prototype proto property =
     (if property = ''__proto__'' then proto
      else if property \<in> set Object_prototype_keys then VInherited property
      else Undefined)"

definition inherited :: "'c jsval \<Rightarrow> string \<Rightarrow> 'c jsval" where
  "inherited proto property =
     (case proto of
        VNull \<Rightarrow> Undefined
      | VObject props \<Rightarrow>
          (case map_of props property of
             Some v \<Rightarrow> v
           | None \<Rightarrow> from_Object_prototype proto property)
      | _ \<Rightarrow> from_Object_prototype proto property)"

definition Reflect_get :: "'c jsval \<Rightarrow> (string \<times> 'c jsval) list \<Rightarrow> string \<Rightarrow> 'c jsval" where
  "Reflect_get proto obj property =
     (case map_of obj property of
        Some v \<Rightarrow> v
      | None \<Rightarrow> inherited proto property)"

text \<open>
  \<^verbatim>\<open>Reflect.set\<close> writes an own property. For the key \<^verbatim>\<open>__proto__\<close>, when
  neither the object nor a plain object that is its prototype has an own property of
  that name, and the prototype is not \<^verbatim>\<open>null\<close>, it finds the accessor of
  \<^verbatim>\<open>Object.prototype\<close> instead (\<open>proto_accessor\<close>): the accessor makes an object or
  \<^verbatim>\<open>null\<close> the new prototype, ignores any other value, and leaves the own properties
  as they are. The result is the prototype and the own properties after the write.
\<close>

fun is_object :: "'c jsval \<Rightarrow> bool" where
  "is_object Undefined = False"
| "is_object VNull = False"
| "is_object (VString x) = False"
| "is_object (VNumber n) = False"
| "is_object (VBoolean b) = False"
| "is_object (VObject props) = True"
| "is_object (VConfiguration c) = True"
| "is_object (VFunction helper) = True"
| "is_object (VResponder c m n) = True"
| "is_object (VInherited n) = True"

definition proto_accessor :: "'c jsval \<Rightarrow> (string \<times> 'c jsval) list \<Rightarrow> bool" where
  "proto_accessor proto obj =
     (\<not> hasOwnProperty obj ''__proto__'' \<and> proto \<noteq> VNull
      \<and> (case proto of
            VObject props \<Rightarrow> \<not> hasOwnProperty props ''__proto__''
          | _ \<Rightarrow> True))"

definition Reflect_set ::
  "'c jsval \<Rightarrow> (string \<times> 'c jsval) list \<Rightarrow> string \<Rightarrow> 'c jsval
     \<Rightarrow> 'c jsval \<times> (string \<times> 'c jsval) list" where
  "Reflect_set proto obj property v =
     (if property = ''__proto__'' \<and> proto_accessor proto obj
      then (if is_object v \<or> v = VNull then v else proto, obj)
      else (proto, AList.update property v obj))"

text \<open>
  A context is the proxy's target, which is an object, together with the \<^verbatim>\<open>warn\<close>
  its traps close over.
\<close>

record 'c ContextObject =
  target :: "(string \<times> 'c jsval) list"
  trap_warn :: ConsoleHelper
  prototype :: "'c jsval"

definition dquote :: string where
  "dquote = [CHR 0x22]"

definition reassigned_message :: "string \<Rightarrow> string" where
  "reassigned_message property =
     ''Strate context property '' @ dquote @ property @ dquote @
     '' is being reassigned by the route or the current middleware. '' @
     ''If you meant to do this, ignore this warning.''"

definition not_found_message :: "string \<Rightarrow> string" where
  "not_found_message property =
     ''Property '' @ dquote @ property @ dquote @
     '' was not found on the context object. Did you forget do add a '' @
     ''middleware that provide this property?''"

text \<open>\<^verbatim>\<open>createContext\<close> (part_000, lines 83-106): the target and the proxy around it.\<close>

definition createContext :: "'c \<Rightarrow> ConsoleHelper \<Rightarrow> ConsoleHelper \<Rightarrow> 'c ContextObject" where
  "createContext configuration debug_fn warn =
     \<lparr>target = [(''strate'', VObject [(''configuration'', VConfiguration configuration),
                                      (''warn'', VFunction warn),
                                      (''debug'', VFunction debug_fn)])],
      trap_warn = warn,
      prototype = Object_prototype\<rparr>"

section \<open>The state of an invocation\<close>

text \<open>
  The state one invocation acts on: the console, the context, the responses sent with
  \<^verbatim>\<open>response.status(code).send(body)\<close>, and the variable
  \<^verbatim>\<open>handlerHasBeenExecuted\<close> of \<^verbatim>\<open>executeRoute\<close>, which the continuations close
  over. An \<^verbatim>\<open>async\<close> function that is awaited is a function from the state to the
  error it throws, if any, and the new state. \<^verbatim>\<open>handle\<close> takes the continuation
  \<^verbatim>\<open>next\<close>; the request is not modelled.
\<close>

record 'c world =
  console :: console
  ctx :: "'c ContextObject"
  response :: "(nat \<times> 'c jsval) list"
  handlerHasBeenExecuted :: bool

type_synonym 'c comp = "'c world \<Rightarrow> js_error option \<times> 'c world"

type_synonym 'c handle_fn = "'c comp \<Rightarrow> 'c comp"

text \<open>
  The closure \<^verbatim>\<open>error\<close> of \<^verbatim>\<open>ErrorHandler.handle\<close> (ErrorHandler.ts, lines 30-39):
  an argument left out takes the instance's default; it sends the response and throws
  the sentinel. The spread of \<^verbatim>\<open>additionalProps\<close> defines its properties after
  \<^verbatim>\<open>code\<close> and \<^verbatim>\<open>message\<close>.
\<close>

definition error_responder ::
  "string \<Rightarrow> string \<Rightarrow> nat \<Rightarrow> string option \<Rightarrow> string option \<Rightarrow> nat option
     \<Rightarrow> (string \<times> 'c jsval) list option \<Rightarrow> 'c comp" where
  "error_responder defaultCode defaultMessage defaultStatusCode
       code message statusCode additionalProps w =
     (Some HandledError,
      w\<lparr>response := response w @
           [(or_default defaultStatusCode statusCode,
             VObject [(''error'',
               VObject (foldl (\<lambda>obj (k, v). AList.update k v obj)
                          [(''code'', VString (or_default defaultCode code)),
                           (''message'', VString (or_default defaultMessage message))]
                          (or_default [] additionalProps)))])]\<rparr>)"

text \<open>
  Calling a value a context holds, with the arguments of \<^verbatim>\<open>error\<close>, of which a logger
  takes the first as its message. A logger writes its line, the \<^verbatim>\<open>error\<close> closure
  responds and throws, and anything that is no function is a \<^verbatim>\<open>TypeError\<close>. Of the
  values of \<^verbatim>\<open>Object.prototype\<close>, that under \<^verbatim>\<open>__proto__\<close> is no function and
  the two \<^verbatim>\<open>__define\<close> functions throw for want of a function as second
  argument; a call of another one returns
  normally (the lines \<^verbatim>\<open>toString\<close> makes the \<^verbatim>\<open>get\<close> trap write when its receiver
  is the context are left out).
\<close>

definition call_value ::
  "'c jsval \<Rightarrow> string \<Rightarrow> string option \<Rightarrow> string option \<Rightarrow> nat option
     \<Rightarrow> (string \<times> 'c jsval) list option \<Rightarrow> 'c comp" where
  "call_value f callee code message statusCode additionalProps w =
     (case f of
        VFunction helper \<Rightarrow> (None, w\<lparr>console := helper (js_to_string code) (console w)\<rparr>)
      | VResponder dc dm ds \<Rightarrow> error_responder dc dm ds code message statusCode additionalProps w
      | VInherited n \<Rightarrow>
          if n \<in> {''__defineGetter__'', ''__defineSetter__''}
          then (Some (TypeError (''Object.prototype.'' @ n @ '': Expecting function'')), w)
          else if n = ''__proto__''
          then (Some (TypeError (callee @ '' is not a function'')), w)
          else (None, w)
      | _ \<Rightarrow> (Some (TypeError (callee @ '' is not a function'')), w))"

section \<open>The traps of the proxy\<close>

text \<open>
  Both traps start with \<^verbatim>\<open>target.hasOwnProperty(property)\<close> (part_000, lines 90 and
  98): the function is looked up on the target, so an own property of that name, or one
  of a prototype put in the place of \<^verbatim>\<open>Object.prototype\<close>, shadows the built-in. The
  built-in tells whether the property is an own one. Another function of
  \<^verbatim>\<open>Object.prototype\<close> called in its place gives its own result, of which the trap
  tests the truthiness; a logger writes the property's name and returns
  \<^verbatim>\<open>undefined\<close>; the \<^verbatim>\<open>error\<close> closure responds and throws; a value that is no
  function is a \<^verbatim>\<open>TypeError\<close>.
\<close>

definition inherited_truthy ::
  "string \<Rightarrow> 'c jsval \<Rightarrow> (string \<times> 'c jsval) list \<Rightarrow> string \<Rightarrow> js_error + bool" where
  "inherited_truthy n proto obj property =
     (if n \<in> {''hasOwnProperty'', ''propertyIsEnumerable''}
      then Inr (hasOwnProperty obj property)
      else if n = ''isPrototypeOf'' then Inr False
      else if n \<in> {''__lookupGetter__'', ''__lookupSetter__''}
      then Inr (property = ''__proto__'' \<and> proto_accessor proto obj)
      else if n \<in> {''__defineGetter__'', ''__defineSetter__''}
      then Inl (TypeError (''Object.prototype.'' @ n @ '': Expecting function''))
      else if n = ''__proto__''
      then Inl (TypeError ''target.hasOwnProperty is not a function'')
      else Inr True)"

definition target_hasOwnProperty :: "string \<Rightarrow> 'c world \<Rightarrow> (js_error + bool) \<times> 'c world" where
  "target_hasOwnProperty property w =
     (case Reflect_get (prototype (ctx w)) (target (ctx w)) ''hasOwnProperty'' of
        VInherited n \<Rightarrow> (inherited_truthy n (prototype (ctx w)) (target (ctx w)) property, w)
      | VFunction helper \<Rightarrow> (Inr False, w\<lparr>console := helper property (console w)\<rparr>)
      | VResponder dc dm ds \<Rightarrow>
          (Inl HandledError, snd (error_responder dc dm ds (Some property) None None None w))
      | _ \<Rightarrow> (Inl (TypeError ''target.hasOwnProperty is not a function''), w))"

text \<open>
  The \<^verbatim>\<open>set\<close> trap (lines 89-96), run by an assignment \<^verbatim>\<open>context[property] = v\<close>, and
  the \<^verbatim>\<open>get\<close> trap (lines 97-104), run by a read \<^verbatim>\<open>context[property]\<close>. The logger
  they call is the parameter \<^verbatim>\<open>warn\<close> of \<^verbatim>\<open>createContext\<close>.
\<close>

definition written :: "string \<Rightarrow> 'c jsval \<Rightarrow> 'c ContextObject \<Rightarrow> 'c ContextObject" where
  "written property v c =
     (case Reflect_set (prototype c) (target c) property v of
        (proto, obj) \<Rightarrow> c\<lparr>target := obj, prototype := proto\<rparr>)"

definition proxy_set :: "string \<Rightarrow> 'c jsval \<Rightarrow> 'c comp" where
  "proxy_set property v w =
     (case target_hasOwnProperty property w of
        (Inl e, w1) \<Rightarrow> (Some e, w1)
      | (Inr own, w1) \<Rightarrow>
          (let w2 = (if own
                     then w1\<lparr>console := trap_warn (ctx w1) (reassigned_message property)
                                          (console w1)\<rparr>
                     else w1)
           in (None, w2\<lparr>ctx := written property v (ctx w2)\<rparr>)))"

definition proxy_get :: "string \<Rightarrow> 'c world \<Rightarrow> (js_error + 'c jsval) \<times> 'c world" where
  "proxy_get property w =
     (case target_hasOwnProperty property w of
        (Inl e, w1) \<Rightarrow> (Inl e, w1)
      | (Inr own, w1) \<Rightarrow>
          (let w2 = (if \<not> own
                     then w1\<lparr>console := trap_warn (ctx w1) (not_found_message property)
                                          (console w1)\<rparr>
                     else w1)
           in (Inr (Reflect_get (prototype (ctx w2)) (target (ctx w2)) property), w2)))"

text \<open>
  \<^verbatim>\<open>context[outer][inner]\<close> and \<^verbatim>\<open>context[outer][inner] = v\<close>: the outer key is
  read through the proxy, the inner one on the stored object itself, which is no proxy.
  Reading a property of \<^verbatim>\<open>undefined\<close> or \<^verbatim>\<open>null\<close> is a \<^verbatim>\<open>TypeError\<close>. Of a
  stored value that is no plain object the properties are not modelled: they read as
  \<^verbatim>\<open>undefined\<close>, and a write leaves the context as it is; nor is a new prototype
  given to a stored object by a write to its \<^verbatim>\<open>__proto__\<close>.
\<close>

definition nested_get ::
  "string \<Rightarrow> string \<Rightarrow> 'c world \<Rightarrow> (js_error + 'c jsval) \<times> 'c world" where
  "nested_get outer inner w =
     (case proxy_get outer w of
        (Inl e, w1) \<Rightarrow> (Inl e, w1)
      | (Inr Undefined, w1) \<Rightarrow> (Inl (TypeError ''Cannot read properties of undefined''), w1)
      | (Inr VNull, w1) \<Rightarrow> (Inl (TypeError ''Cannot read properties of null''), w1)
      | (Inr (VObject props), w1) \<Rightarrow> (Inr (Reflect_get Object_prototype props inner), w1)
      | (Inr _, w1) \<Rightarrow> (Inr Undefined, w1))"

definition nested_set :: "string \<Rightarrow> string \<Rightarrow> 'c jsval \<Rightarrow> 'c comp" where
  "nested_set outer inner v w =
     (case proxy_get outer w of
        (Inl e, w1) \<Rightarrow> (Some e, w1)
      | (Inr Undefined, w1) \<Rightarrow> (Some (TypeError ''Cannot set properties of undefined''), w1)
      | (Inr VNull, w1) \<Rightarrow> (Some (TypeError ''Cannot set properties of null''), w1)
      | (Inr (VObject props), w1) \<Rightarrow>
          (None, w1\<lparr>ctx := (ctx w1)\<lparr>target :=
                     AList.update outer
                       (VObject (snd (Reflect_set Object_prototype props inner v)))
                       (target (ctx w1))\<rparr>\<rparr>)
      | (Inr _, w1) \<Rightarrow> (None, w1))"

text \<open>
  \<^verbatim>\<open>context.strate.debug(message)\<close> and \<^verbatim>\<open>context.strate.warn(message)\<close>, as the
  engine and the middleware call them: \<^verbatim>\<open>context.strate\<close> is read through the proxy,
  the logger on the object found there, and the logger is called. None of the values but
  a plain object has a function under the name \<^verbatim>\<open>debug\<close> or \<^verbatim>\<open>warn\<close>.
\<close>

definition call_strate :: "string \<Rightarrow> string \<Rightarrow> 'c comp" where
  "call_strate logger message w =
     (case proxy_get ''strate'' w of
        (Inl e, w1) \<Rightarrow> (Some e, w1)
      | (Inr Undefined, w1) \<Rightarrow> (Some (TypeError ''Cannot read properties of undefined''), w1)
      | (Inr VNull, w1) \<Rightarrow> (Some (TypeError ''Cannot read properties of null''), w1)
      | (Inr (VObject props), w1) \<Rightarrow>
          call_value (Reflect_get Object_prototype props logger) (''context.strate.'' @ logger)
            (Some message) None None None w1
      | (Inr _, w1) \<Rightarrow>
          (Some (TypeError (''context.strate.'' @ logger @ '' is not a function'')), w1))"

section \<open>The dependency graph\<close>

text \<open>
  Modelled from the spec: the class \<^verbatim>\<open>DepGraph\<close> of the package
  \<^verbatim>\<open>dependency-graph\<close> (imported at part_000, line 3) is not among the sources.
  The spec (sections 3 and 4.2) describes it as a mapping from identity to instance plus
  a directed edge set, an edge from a dependent to its dependency, whose order is a
  topological sort (an "overall order") where independent nodes appear in
  graph-insertion order and depended-upon nodes precede their dependents, and which fails
  with a dependency-cycle error on a cycle. The model keeps the nodes in insertion order
  (the order of the keys of an object, since the identity of an instance has a dot or
  starts with \<^verbatim>\<open>undefined\<close> and so is never an array index), refuses an edge one of whose ends is not a node (the error \<^verbatim>\<open>resolveMiddleware\<close>
  catches), and computes the order by a depth-first search from the nodes nothing depends
  on, after a search from every node that looks for a cycle. The cycle is reported by
  \<open>overallOrder\<close>, which \<^verbatim>\<open>resolveMiddleware\<close> calls outside its \<^verbatim>\<open>try\<close>: an
  error of \<open>addDependency\<close> is replaced there by the missing-dependency error.
\<close>

record 'a DepGraph =
  nodes :: "(string \<times> 'a) list"
  outgoingEdges :: "(string \<times> string list) list"
  incomingEdges :: "(string \<times> string list) list"

definition new_DepGraph :: "'a DepGraph" where
  "new_DepGraph = \<lparr>nodes = [], outgoingEdges = [], incomingEdges = []\<rparr>"

definition hasNode :: "'a DepGraph \<Rightarrow> string \<Rightarrow> bool" where
  "hasNode g n = (map_of (nodes g) n \<noteq> None)"

definition addNode :: "'a DepGraph \<Rightarrow> string \<Rightarrow> 'a \<Rightarrow> 'a DepGraph" where
  "addNode g n d =
     (if hasNode g n then g
      else g\<lparr>nodes := nodes g @ [(n, d)],
             outgoingEdges := outgoingEdges g @ [(n, [])],
             incomingEdges := incomingEdges g @ [(n, [])]\<rparr>)"

definition setNodeData :: "'a DepGraph \<Rightarrow> string \<Rightarrow> 'a \<Rightarrow> js_error + 'a DepGraph" where
  "setNodeData g n d =
     (if hasNode g n then Inr (g\<lparr>nodes := AList.update n d (nodes g)\<rparr>)
      else Inl (NodeDoesNotExist n))"

definition getNodeData :: "'a DepGraph \<Rightarrow> string \<Rightarrow> js_error + 'a" where
  "getNodeData g n = (case map_of (nodes g) n of Some d \<Rightarrow> Inr d | None \<Rightarrow> Inl (NodeDoesNotExist n))"

definition push_new :: "string \<Rightarrow> string list \<Rightarrow> string list" where
  "push_new x xs = (if x \<in> set xs then xs else xs @ [x])"

definition addDependency :: "'a DepGraph \<Rightarrow> string \<Rightarrow> string \<Rightarrow> js_error + 'a DepGraph" where
  "addDependency g a b =
     (if \<not> hasNode g a then Inl (NodeDoesNotExist a)
      else if \<not> hasNode g b then Inl (NodeDoesNotExist b)
      else Inr (g\<lparr>outgoingEdges := AList.map_entry a (push_new b) (outgoingEdges g),
                  incomingEdges := AList.map_entry b (push_new a) (incomingEdges g)\<rparr>))"

text \<open>
  Modelled from the spec: the depth-first search behind the topological sort of
  \<^verbatim>\<open>DepGraph\<close>, which is not among the sources. \<open>result\<close> holds the nodes already
  finished, in the order they finished; \<open>currentPath\<close> the nodes entered and not yet
  finished. A node is appended once all its edges are done. Reaching a node of the
  current path is a cycle.
\<close>

function DFS ::
    "(string \<times> string list) list \<Rightarrow> string list \<Rightarrow> string \<Rightarrow> string list
       \<Rightarrow> js_error + string list"
  and DFS_all ::
    "(string \<times> string list) list \<Rightarrow> string list \<Rightarrow> string list \<Rightarrow> string list
       \<Rightarrow> js_error + string list"
where
  "DFS edges currentPath node result =
     (if node \<in> set result then Inr result
      else if node \<in> set currentPath then Inl (DependencyCycle (rev (node # currentPath)))
      else case map_of edges node of
             None \<Rightarrow> Inl (TypeError ''Cannot read properties of undefined'')
           | Some nodeEdges \<Rightarrow>
               (case DFS_all edges (node # currentPath) nodeEdges result of
                  Inl e \<Rightarrow> Inl e
                | Inr result' \<Rightarrow> Inr (result' @ [node])))"
| "DFS_all edges currentPath [] result = Inr result"
| "DFS_all edges currentPath (n # ns) result =
     (case DFS edges currentPath n result of
        Inl e \<Rightarrow> Inl e
      | Inr result' \<Rightarrow> DFS_all edges currentPath ns result')"
  by pat_completeness auto
termination
proof (relation "measures
    [\<lambda>x. case x of
            Inl (edges, currentPath, node, result) \<Rightarrow> card (fst ` set edges - set currentPath)
          | Inr (edges, currentPath, ns, result) \<Rightarrow> card (fst ` set edges - set currentPath),
     \<lambda>x. case x of Inl _ \<Rightarrow> 0 | Inr (edges, currentPath, ns, result) \<Rightarrow> Suc (length ns)]")
  show "wf (measures
    [\<lambda>x. case x of
            Inl (edges, currentPath, node, result) \<Rightarrow> card (fst ` set edges - set currentPath)
          | Inr (edges, currentPath, ns, result) \<Rightarrow> card (fst ` set edges - set currentPath),
     \<lambda>x. case x of Inl _ \<Rightarrow> 0 | Inr (edges, currentPath, ns, result) \<Rightarrow> Suc (length ns)])"
    by simp
next
  fix edges :: "(string \<times> string list) list" and currentPath node result nodeEdges
  assume a: "node \<notin> set currentPath" and b: "map_of edges node = Some nodeEdges"
  from b have "(node, nodeEdges) \<in> set edges"
    by (rule map_of_SomeD)
  then have "node \<in> fst ` set edges"
    by force
  with a have "fst ` set edges - set (node # currentPath) \<subset> fst ` set edges - set currentPath"
    by auto
  then have "card (fst ` set edges - set (node # currentPath))
               < card (fst ` set edges - set currentPath)"
    by (intro psubset_card_mono) auto
  then show "(Inr (edges, node # currentPath, nodeEdges, result),
              Inl (edges, currentPath, node, result))
             \<in> measures
    [\<lambda>x. case x of
            Inl (edges, currentPath, node, result) \<Rightarrow> card (fst ` set edges - set currentPath)
          | Inr (edges, currentPath, ns, result) \<Rightarrow> card (fst ` set edges - set currentPath),
     \<lambda>x. case x of Inl _ \<Rightarrow> 0 | Inr (edges, currentPath, ns, result) \<Rightarrow> Suc (length ns)]"
    by simp
qed simp_all

text \<open>
  Modelled from the spec: \<^verbatim>\<open>DepGraph.overallOrder\<close>, which is not among the sources.
  Nothing for the empty graph; otherwise the search for a cycle from every node, then the
  search that builds the order, from the nodes with no incoming edge, in insertion order.
\<close>

definition overallOrder :: "'a DepGraph \<Rightarrow> js_error + string list" where
  "overallOrder g =
     (let keys = map fst (nodes g) in
      if keys = [] then Inr []
      else case DFS_all (outgoingEdges g) [] keys [] of
             Inl e \<Rightarrow> Inl e
           | Inr checked \<Rightarrow>
               DFS_all (outgoingEdges g) []
                 (filter (\<lambda>node. map_of (incomingEdges g) node = Some []) keys) [])"

section \<open>Resolving the middleware\<close>

text \<open>
  What the resolver reads of the context: \<^verbatim>\<open>context.strate\<close>, the configuration and
  the two loggers. It is passed beside the state the middleware act on, since the
  configuration holds the middleware themselves.
\<close>

record 'h strate =
  strate_configuration :: "'h StrateConfiguration"
  strate_warn :: ConsoleHelper
  strate_debug :: ConsoleHelper

definition squote :: string where
  "squote = [CHR 0x27]"

definition skip_nonempty :: "'h StrateConfiguration \<Rightarrow> bool" where
  "skip_nonempty c = (case skip c of None \<Rightarrow> False | Some rs \<Rightarrow> rs \<noteq> [])"

definition skip_includes :: "'h StrateConfiguration \<Rightarrow> string \<Rightarrow> bool" where
  "skip_includes c n = (case skip c of None \<Rightarrow> False | Some rs \<Rightarrow> RefString n \<in> set rs)"

definition duplicate_message :: "'h strate \<Rightarrow> 'h Middleware \<Rightarrow> string \<Rightarrow> string" where
  "duplicate_message s inst instanceName =
     (let intendedSolution =
            (if skip_nonempty (strate_configuration s)
             then ''add '' @ dquote @ instanceName @ dquote @ '' to the '' @ dquote @ ''skip'' @
                  dquote @ '' array on this route configuration''
             else ''add '' @ dquote @ ''skip: [ '' @ squote @ instanceName @ squote @ '' ]'' @
                  dquote @ '' to this route configuration'');
          duplicateIdSolution =
            (if id_method inst \<noteq> NoId
             then ''modify their class'' @ squote @ '' '' @ dquote @ ''id()'' @ dquote @
                  '' method to return unique strings''
             else ''create an '' @ dquote @ ''id()'' @ dquote @
                  '' method on the middleware class that returns unique strings'')
      in ''The '' @ dquote @ instanceName @ dquote @
         '' middleware was used more than once. Only the last instance of the middleware '' @
         ''will be used. If this was intended, '' @ intendedSolution @
         '' to suppress this message. If you intended to use both '' @
         ''(or more) middleware instances, '' @ duplicateIdSolution @
         '' to identify different instances.'')"

text \<open>\<^verbatim>\<open>addMiddlewareToGraph\<close> (part_000, lines 150-176).\<close>

fun addMiddlewareToGraph ::
  "'h strate \<Rightarrow> 'h Middleware list \<Rightarrow> 'h Middleware DepGraph \<Rightarrow> console
     \<Rightarrow> (js_error + 'h Middleware DepGraph) \<times> console" where
  "addMiddlewareToGraph s [] graph out = (Inr graph, out)"
| "addMiddlewareToGraph s (inst # rest) graph out =
     (case getMiddlewareName (ArgObject inst) of
        Inl e \<Rightarrow> (Inl e, out)
      | Inr instanceName \<Rightarrow>
          if hasNode graph instanceName
          then (let out' = strate_warn s (duplicate_message s inst instanceName) out
                in case setNodeData graph instanceName inst of
                     Inl e \<Rightarrow> (Inl e, out')
                   | Inr graph' \<Rightarrow> addMiddlewareToGraph s rest graph' out')
          else addMiddlewareToGraph s rest (addNode graph instanceName inst) out)"

text \<open>
  The two loops of \<^verbatim>\<open>resolveMiddleware\<close> (part_000, lines 188-214): the inner one
  over the dependencies of one instance, with the \<^verbatim>\<open>try\<close> around
  \<open>addDependency\<close>, and the outer one over the instances.
\<close>

fun add_dependencies ::
  "'h strate \<Rightarrow> string \<Rightarrow> reference list \<Rightarrow> 'h Middleware DepGraph
     \<Rightarrow> js_error + 'h Middleware DepGraph" where
  "add_dependencies s instanceName [] graph = Inr graph"
| "add_dependencies s instanceName (dependency # rest) graph =
     (case getMiddlewareName (arg_of dependency :: 'h mw_arg) of
        Inl e \<Rightarrow> Inl e
      | Inr dependencyName \<Rightarrow>
          (case addDependency graph instanceName dependencyName of
             Inl e \<Rightarrow>
               if skip_includes (strate_configuration s) dependencyName
               then Inl (SkippedDependency instanceName dependencyName)
               else Inl (MissingDependency instanceName dependencyName)
           | Inr graph' \<Rightarrow> add_dependencies s instanceName rest graph'))"

fun set_dependencies ::
  "'h strate \<Rightarrow> 'h Middleware list \<Rightarrow> 'h Middleware DepGraph
     \<Rightarrow> js_error + 'h Middleware DepGraph" where
  "set_dependencies s [] graph = Inr graph"
| "set_dependencies s (inst # rest) graph =
     (case getMiddlewareName (ArgObject inst) of
        Inl e \<Rightarrow> Inl e
      | Inr instanceName \<Rightarrow>
          (case add_dependencies s instanceName (dependencies inst) graph of
             Inl e \<Rightarrow> Inl e
           | Inr graph' \<Rightarrow> set_dependencies s rest graph'))"

text \<open>
  \<^verbatim>\<open>resolveMiddleware\<close> (part_000, lines 181-217). \<^verbatim>\<open>addMiddlewareToGraph\<close>
  defaults an absent list to the empty one; the \<^verbatim>\<open>for\<close> over an absent list is a
  \<^verbatim>\<open>TypeError\<close>.
\<close>

definition resolveMiddleware ::
  "'h strate \<Rightarrow> console
     \<Rightarrow> (js_error + 'h Middleware DepGraph \<times> string list) \<times> console" where
  "resolveMiddleware s out =
     (case addMiddlewareToGraph s (or_default [] (middleware (strate_configuration s)))
             new_DepGraph out of
        (Inl e, out') \<Rightarrow> (Inl e, out')
      | (Inr graph, out') \<Rightarrow>
          (case middleware (strate_configuration s) of
             None \<Rightarrow> (Inl (TypeError ''undefined is not iterable''), out')
           | Some instances \<Rightarrow>
               (case set_dependencies s instances graph of
                  Inl e \<Rightarrow> (Inl e, out')
                | Inr graph' \<Rightarrow>
                    (case overallOrder graph' of
                       Inl e \<Rightarrow> (Inl e, out')
                     | Inr order \<Rightarrow> (Inr (graph', order), out')))))"

section \<open>Executing a route\<close>

fun join :: "string \<Rightarrow> string list \<Rightarrow> string" where
  "join sep [] = []"
| "join sep [x] = x"
| "join sep (x # y # ys) = x @ sep @ join sep (y # ys)"

text \<open>
  \<^verbatim>\<open>next\<close> (part_000, lines 247-263), here \<open>next_mw\<close>.
  \<^verbatim>\<open>middlewareArray[index]\<close> is falsy past the end of the array and at an empty name.
  Each step calls \<^verbatim>\<open>context.strate.debug\<close> on the context as it is by then.
\<close>

function next_mw ::
  "('c handle_fn) Middleware DepGraph \<Rightarrow> string list \<Rightarrow> 'c comp \<Rightarrow> nat \<Rightarrow> 'c comp" where
  "next_mw graph middlewareArray handler index =
     (if index < length middlewareArray \<and> middlewareArray ! index \<noteq> []
      then (\<lambda>w. case getNodeData graph (middlewareArray ! index) of
                  Inl e \<Rightarrow> (Some e, w)
                | Inr middlewareInstance \<Rightarrow>
                    (case getMiddlewareName (ArgObject middlewareInstance) of
                       Inl e \<Rightarrow> (Some e, w)
                     | Inr middlewareName \<Rightarrow>
                         (case call_strate ''debug'' (''Running: '' @ middlewareName) w of
                            (Some e, w1) \<Rightarrow> (Some e, w1)
                          | (None, w1) \<Rightarrow>
                              handle middlewareInstance
                                (next_mw graph middlewareArray handler (index + 1)) w1)))
      else (\<lambda>w. case call_strate ''debug'' ''Running route handler'' w of
                  (Some e, w1) \<Rightarrow> (Some e, w1)
                | (None, w1) \<Rightarrow> handler (w1\<lparr>handlerHasBeenExecuted := True\<rparr>)))"
  by pat_completeness auto
termination
  by (relation "measure (\<lambda>(graph, middlewareArray, handler, index).
                  length middlewareArray - index)") auto

definition not_executed_message :: string where
  "not_executed_message =
     ''Strate finished execution successfully, but the called route handler wasn'' @ squote @
     ''t executed. A middleware may have sent a response before the handler had a '' @
     ''chance to run.''"

text \<open>
  \<^verbatim>\<open>executeRoute\<close> (part_000, lines 222-275), in three parts: what it logs once the
  order is known and the reset of \<^verbatim>\<open>handlerHasBeenExecuted\<close> (lines 233-241), the
  chain (line 266), and the diagnostic at the end (lines 268-274). The skip list is joined
  as the strings \<^verbatim>\<open>loadConfiguration\<close> left there.

  The middleware are functions on the state, which a value of the context cannot hold:
  \<open>s\<close> is the object \<^verbatim>\<open>context.strate\<close> as it is when \<^verbatim>\<open>executeRoute\<close> is called,
  from which \<^verbatim>\<open>resolveMiddleware\<close> and the test of the skip list (both run before
  any middleware) take the configuration. Every call of a logger by \<^verbatim>\<open>executeRoute\<close>
  and \<^verbatim>\<open>next\<close> reads \<^verbatim>\<open>context.strate\<close> in the state of that moment.
\<close>

definition announce :: "'h strate \<Rightarrow> string list \<Rightarrow> 'c comp" where
  "announce s middlewareArray w =
     (case call_strate ''debug'' (''Running middleware in the following order: '' @
                                   join '' -> '' middlewareArray) w of
        (Some e, w2) \<Rightarrow> (Some e, w2)
      | (None, w2) \<Rightarrow>
          (case (if skip_nonempty (strate_configuration s)
                 then call_strate ''debug'' (''The following middleware were skipped: '' @
                        join '', '' (map resolve_ref
                          (or_default [] (skip (strate_configuration s))))) w2
                 else (None, w2)) of
             (Some e, w3) \<Rightarrow> (Some e, w3)
           | (None, w3) \<Rightarrow> (None, w3\<lparr>handlerHasBeenExecuted := False\<rparr>)))"

definition conclude :: "'c comp" where
  "conclude w =
     (if handlerHasBeenExecuted w
      then call_strate ''debug'' ''Strate finished execution successfully.'' w
      else call_strate ''warn'' not_executed_message w)"

definition executeRoute ::
  "('c handle_fn) strate \<Rightarrow> 'c comp \<Rightarrow> 'c comp" where
  "executeRoute s handler w =
     (case call_strate ''debug'' ''Generating middleware graph'' w of
        (Some e, w1) \<Rightarrow> (Some e, w1)
      | (None, w1) \<Rightarrow>
          (case resolveMiddleware s (console w1) of
             (Inl e, out) \<Rightarrow> (Some e, w1\<lparr>console := out\<rparr>)
           | (Inr (graph, middlewareArray), out) \<Rightarrow>
               (case announce s middlewareArray (w1\<lparr>console := out\<rparr>) of
                  (Some e, w4) \<Rightarrow> (Some e, w4)
                | (None, w4) \<Rightarrow>
                    (case next_mw graph middlewareArray handler 0 w4 of
                       (Some e, w5) \<Rightarrow> (Some e, w5)
                     | (None, w5) \<Rightarrow> conclude w5))))"

section \<open>The ErrorHandler middleware\<close>

text \<open>
  \<^verbatim>\<open>context.error(code, message, statusCode, additionalProps)\<close>, as a middleware or
  a route handler calls it.
\<close>

definition call_context_error ::
  "string option \<Rightarrow> string option \<Rightarrow> nat option \<Rightarrow> (string \<times> 'c jsval) list option
     \<Rightarrow> 'c comp" where
  "call_context_error code message statusCode additionalProps w =
     (case proxy_get ''error'' w of
        (Inl e, w1) \<Rightarrow> (Some e, w1)
      | (Inr f, w1) \<Rightarrow>
          call_value f ''context.error'' code message statusCode additionalProps w1)"

text \<open>
  \<^verbatim>\<open>ErrorHandler.handle\<close> (ErrorHandler.ts, lines 29-59). \<open>install_error\<close> is the
  assignment \<^verbatim>\<open>context.error = error\<close>, through the proxy and before the
  \<^verbatim>\<open>try\<close>. \<open>NODE_ENV\<close> is \<^verbatim>\<open>process.env.NODE_ENV\<close>. In the \<^verbatim>\<open>catch\<close> clause,
  \<^verbatim>\<open>error()\<close> is the closure itself, called with no argument.
\<close>

definition install_error :: "string \<Rightarrow> string \<Rightarrow> nat \<Rightarrow> 'c comp" where
  "install_error defaultCode defaultMessage defaultStatusCode =
     proxy_set ''error'' (VResponder defaultCode defaultMessage defaultStatusCode)"

definition ErrorHandler_handle ::
  "string option \<Rightarrow> string \<Rightarrow> string \<Rightarrow> nat \<Rightarrow> 'c handle_fn" where
  "ErrorHandler_handle NODE_ENV defaultCode defaultMessage defaultStatusCode next_fn w =
     (case install_error defaultCode defaultMessage defaultStatusCode w of
        (Some e, w1) \<Rightarrow> (Some e, w1)
      | (None, w1) \<Rightarrow>
          (case next_fn w1 of
             (None, w2) \<Rightarrow> (None, w2)
           | (Some err, w2) \<Rightarrow>
               if err = HandledError then (None, w2)
               else if NODE_ENV = Some ''production''
               then error_responder defaultCode defaultMessage defaultStatusCode
                      None None None None w2
               else (case call_strate ''warn'' ''An error was thrown:'' w2 of
                       (Some e, w3) \<Rightarrow> (Some e, w3)
                     | (None, w3) \<Rightarrow> (Some err, w3))))"

definition ErrorHandler ::
  "string option \<Rightarrow> string \<Rightarrow> string \<Rightarrow> nat \<Rightarrow> ('c handle_fn) Middleware" where
  "ErrorHandler NODE_ENV defaultCode defaultMessage defaultStatusCode =
     \<lparr>constructor = \<lparr>cls_name = ''ErrorHandler'', cls_namespace = Some ''Strate''\<rparr>,
      dependencies = [],
      id_method = NoId,
      handle = ErrorHandler_handle NODE_ENV defaultCode defaultMessage defaultStatusCode\<rparr>"

section \<open>Middleware and handlers of the application\<close>

text \<open>
  The engine takes any \<^verbatim>\<open>handle\<close>. Two families of them are used to state what it
  does. The first is the middleware of the README: code before \<^verbatim>\<open>await next()\<close>,
  the call, code after it.
\<close>

definition onion :: "('c world \<Rightarrow> 'c world) \<Rightarrow> ('c world \<Rightarrow> 'c world) \<Rightarrow> 'c handle_fn" where
  "onion pre post next_fn w =
     (case next_fn (pre w) of
        (Some e, w') \<Rightarrow> (Some e, w')
      | (None, w') \<Rightarrow> (None, post w'))"

text \<open>
  The second is a \<^verbatim>\<open>handle\<close> that runs a list of steps: print a line, await the
  continuation, call \<^verbatim>\<open>context.error()\<close>, or throw.
\<close>

datatype action = Print string | CallNext | CallError | Throw string

fun run_action :: "action \<Rightarrow> 'c handle_fn" where
  "run_action (Print line) next_fn w = (None, w\<lparr>console := console w @ [line]\<rparr>)"
| "run_action CallNext next_fn w = next_fn w"
| "run_action CallError next_fn w = call_context_error None None None None w"
| "run_action (Throw m) next_fn w = (Some (AppError m), w)"

fun run_script :: "action list \<Rightarrow> 'c handle_fn" where
  "run_script [] next_fn w = (None, w)"
| "run_script (a # rest) next_fn w =
     (case run_action a next_fn w of
        (Some e, w') \<Rightarrow> (Some e, w')
      | (None, w') \<Rightarrow> run_script rest next_fn w')"

text \<open>A route handler that sends one response.\<close>

definition respond :: "nat \<Rightarrow> 'c jsval \<Rightarrow> 'c comp" where
  "respond statusCode body w = (None, w\<lparr>response := response w @ [(statusCode, body)]\<rparr>)"

section \<open>Assignments to a context\<close>

text \<open>
  A sequence of assignments \<^verbatim>\<open>context[k] = v\<close> by the route or the middleware, each
  through the proxy; it ends at the first one that throws.
\<close>

fun assignments :: "(string \<times> 'c jsval) list \<Rightarrow> 'c comp" where
  "assignments [] w = (None, w)"
| "assignments ((k, v) # rest) w =
     (case proxy_set k v w of
        (Some e, w') \<Rightarrow> (Some e, w')
      | (None, w') \<Rightarrow> assignments rest w')"

section \<open>Predicates on graphs and orders\<close>

text \<open>
  The edges out of a node, and what it is for a list of nodes to be in dependency order:
  no node twice, and every edge of a node leads to a node earlier in the list.
\<close>

definition succs :: "(string \<times> string list) list \<Rightarrow> string \<Rightarrow> string list" where
  "succs E n = (case map_of E n of Some es \<Rightarrow> es | None \<Rightarrow> [])"

fun finished_ok :: "(string \<times> string list) list \<Rightarrow> string list \<Rightarrow> bool" where
  "finished_ok E [] = True"
| "finished_ok E (n # before) =
     (n \<notin> set before \<and> set (succs E n) \<subseteq> set before \<and> finished_ok E before)"

definition topo :: "(string \<times> string list) list \<Rightarrow> string list \<Rightarrow> bool" where
  "topo E res = finished_ok E (rev res)"

text \<open>The position of a node in a list, and the edge relation of a graph.\<close>

fun pos :: "string list \<Rightarrow> string \<Rightarrow> nat" where
  "pos [] x = 0"
| "pos (y # ys) x = (if x = y then 0 else Suc (pos ys x))"

definition edge_rel :: "(string \<times> string list) list \<Rightarrow> (string \<times> string) set" where
  "edge_rel E = {(n, m). m \<in> set (succs E n)}"

text \<open>
  The invariant of a graph built with \<open>addNode\<close>, \<open>setNodeData\<close> and \<open>addDependency\<close>:
  the three tables have the same keys, each once; edges lead to nodes; and an incoming
  edge is recorded only for an outgoing one.
\<close>

definition wf_graph :: "'a DepGraph \<Rightarrow> bool" where
  "wf_graph g =
     (map fst (outgoingEdges g) = map fst (nodes g)
      \<and> map fst (incomingEdges g) = map fst (nodes g)
      \<and> distinct (map fst (nodes g))
      \<and> (\<forall>n m. m \<in> set (succs (outgoingEdges g) n) \<longrightarrow> m \<in> fst ` set (nodes g))
      \<and> (\<forall>n p. p \<in> set (succs (incomingEdges g) n) \<longrightarrow> n \<in> set (succs (outgoingEdges g) p)))"

text \<open>
  Every node is stored under the name of its instance.
\<close>

definition node_names_ok :: "'h Middleware DepGraph \<Rightarrow> bool" where
  "node_names_ok g =
     (\<forall>k inst. (k, inst) \<in> set (nodes g) \<longrightarrow> getMiddlewareName (ArgObject inst) = Inr k)"

text \<open>
  The error \<^verbatim>\<open>resolveMiddleware\<close> throws for a dependency \<open>b\<close> of \<open>a\<close> that
  \<open>addDependency\<close> refused, and the first declared dependency, in the order of the two
  loops, whose name is not among the given node names.
\<close>

definition dep_error :: "'h StrateConfiguration \<Rightarrow> string \<Rightarrow> string \<Rightarrow> js_error" where
  "dep_error c a b =
     (if skip_includes c b then SkippedDependency a b else MissingDependency a b)"

fun first_absent_dep :: "string list \<Rightarrow> reference list \<Rightarrow> string option" where
  "first_absent_dep keys [] = None"
| "first_absent_dep keys (d # ds) =
     (if resolve_ref d \<in> set keys then first_absent_dep keys ds else Some (resolve_ref d))"

fun first_absent :: "string list \<Rightarrow> 'h Middleware list \<Rightarrow> (string \<times> string) option" where
  "first_absent keys [] = None"
| "first_absent keys (inst # rest) =
     (case getMiddlewareName (ArgObject inst) of
        Inl e \<Rightarrow> first_absent keys rest
      | Inr a \<Rightarrow>
          (case first_absent_dep keys (dependencies inst) of
             Some b \<Rightarrow> Some (a, b)
           | None \<Rightarrow> first_absent keys rest))"

text \<open>
  The declared dependencies as a relation on names: \<open>(a, b)\<close> when an instance named \<open>a\<close>
  declares a dependency that resolves to \<open>b\<close>.
\<close>

definition dep_rel :: "'h Middleware list \<Rightarrow> (string \<times> string) set" where
  "dep_rel ms =
     {(a, b). \<exists>inst \<in> set ms. \<exists>d \<in> set (dependencies inst).
                getMiddlewareName (ArgObject inst) = Inr a \<and> resolve_ref d = b}"

text \<open>
  A current path of the search, last entered node first: each node is on an edge of the
  one entered before it.
\<close>

fun chain :: "(string \<times> string list) list \<Rightarrow> string list \<Rightarrow> bool" where
  "chain E [] = True"
| "chain E [x] = True"
| "chain E (x # y # zs) = (x \<in> set (succs E y) \<and> chain E (y # zs))"

section \<open>Example inputs\<close>

text \<open>
  An instance of an application class \<open>n\<close> declared in the namespace \<^verbatim>\<open>App\<close>, with the
  given static dependencies and \<^verbatim>\<open>handle\<close>, and no \<^verbatim>\<open>id()\<close>. A context with
  the given configuration and loggers.
\<close>

definition app_middleware :: "string \<Rightarrow> reference list \<Rightarrow> 'h \<Rightarrow> 'h Middleware" where
  "app_middleware n deps h =
     \<lparr>constructor = \<lparr>cls_name = n, cls_namespace = Some ''App''\<rparr>,
      dependencies = deps, id_method = NoId, handle = h\<rparr>"

definition quiet :: ConsoleHelper where
  "quiet message out = out"

definition strate_of :: "'h StrateConfiguration \<Rightarrow> 'h strate" where
  "strate_of c = \<lparr>strate_configuration = c, strate_warn = quiet, strate_debug = quiet\<rparr>"

text \<open>A logger that writes every message, and the state at the start of an invocation.\<close>

definition recorder :: ConsoleHelper where
  "recorder message out = out @ [message]"

definition world_of :: "'c ContextObject \<Rightarrow> 'c world" where
  "world_of c = \<lparr>console = [], ctx = c, response = [], handlerHasBeenExecuted = False\<rparr>"

section \<open>Notions used to state what the engine does\<close>

text \<open>
  \<open>builtin_in_place w\<close>: in the state \<open>w\<close> the prototype of the context is
  \<^verbatim>\<open>Object.prototype\<close> and the context has no own property \<^verbatim>\<open>hasOwnProperty\<close>,
  so that \<^verbatim>\<open>target.hasOwnProperty\<close> is the built-in. \<open>strate_intact s w\<close>: moreover
  \<^verbatim>\<open>context.strate\<close> is an object that holds a configuration and the two loggers of
  \<open>s\<close>, as \<^verbatim>\<open>createContext\<close> made it.
\<close>

definition builtin_in_place :: "'c world \<Rightarrow> bool" where
  "builtin_in_place w =
     (prototype (ctx w) = Object_prototype
      \<and> \<not> hasOwnProperty (target (ctx w)) ''hasOwnProperty'')"

definition strate_intact :: "'h strate \<Rightarrow> 'c world \<Rightarrow> bool" where
  "strate_intact s w =
     (builtin_in_place w
      \<and> (case map_of (target (ctx w)) ''strate'' of
           Some (VObject props) \<Rightarrow>
             map_of props ''debug'' = Some (VFunction (strate_debug s))
             \<and> map_of props ''warn'' = Some (VFunction (strate_warn s))
             \<and> (case map_of props ''configuration'' of
                  Some (VConfiguration c) \<Rightarrow> True
                | _ \<Rightarrow> False)
         | _ \<Rightarrow> False))"

text \<open>
  What a call of a logger and an assignment \<^verbatim>\<open>context[k] = v\<close> do to the state when
  the built-in \<^verbatim>\<open>hasOwnProperty\<close> is in place: the logger writes to the console; the
  \<^verbatim>\<open>set\<close> trap warns if the key is an own property and the value is written.
\<close>

definition logged :: "ConsoleHelper \<Rightarrow> string \<Rightarrow> 'c world \<Rightarrow> 'c world" where
  "logged helper message w = w\<lparr>console := helper message (console w)\<rparr>"

definition assigned :: "string \<Rightarrow> 'c jsval \<Rightarrow> 'c world \<Rightarrow> 'c world" where
  "assigned k v w =
     w\<lparr>console := (if hasOwnProperty (target (ctx w)) k
                    then trap_warn (ctx w) (reassigned_message k) (console w)
                    else console w),
       ctx := written k v (ctx w)\<rparr>"

text \<open>
  The state after the lines \<^verbatim>\<open>executeRoute\<close> logs once the order is known, and after
  its diagnostic at the end, with the loggers of \<open>s\<close>.
\<close>

definition announced :: "'h strate \<Rightarrow> string list \<Rightarrow> 'c world \<Rightarrow> 'c world" where
  "announced s middlewareArray w =
     (let w2 = logged (strate_debug s) (''Running middleware in the following order: '' @
                                        join '' -> '' middlewareArray) w;
          w3 = (if skip_nonempty (strate_configuration s)
                then logged (strate_debug s) (''The following middleware were skipped: '' @
                       join '', '' (map resolve_ref
                         (or_default [] (skip (strate_configuration s))))) w2
                else w2)
      in w3\<lparr>handlerHasBeenExecuted := False\<rparr>)"

definition concluded :: "'h strate \<Rightarrow> 'c world \<Rightarrow> 'c world" where
  "concluded s w =
     (if handlerHasBeenExecuted w
      then logged (strate_debug s) ''Strate finished execution successfully.'' w
      else logged (strate_warn s) not_executed_message w)"

text \<open>
  The state after the middleware of \<open>order\<close> have run their code before
  \<^verbatim>\<open>await next()\<close>, each after the engine's \<^verbatim>\<open>Running\<close> line; the number of times a
  script awaits its continuation; and the scripts that only print and await.
\<close>

definition entered ::
  "'h strate \<Rightarrow> (string \<Rightarrow> 'c world \<Rightarrow> 'c world) \<Rightarrow> string list \<Rightarrow> 'c world \<Rightarrow> 'c world" where
  "entered s pre order w =
     fold (\<lambda>name w'. pre name (logged (strate_debug s) (''Running: '' @ name) w')) order w"



text \<open>
  Printing a line, as application code does; and the state at the start of an invocation
  with loggers that write nothing.
\<close>

definition printing :: "string \<Rightarrow> 'c world \<Rightarrow> 'c world" where
  "printing line w = w\<lparr>console := console w @ [line]\<rparr>"

definition fresh_world :: "'c \<Rightarrow> 'c world" where
  "fresh_world c =
     \<lparr>console = [], ctx = createContext c quiet quiet, response = [],
      handlerHasBeenExecuted = False\<rparr>"

section \<open>Properties of the identity resolver\<close>

lemma resolve_ref_name: "getMiddlewareName (arg_of r) = Inr (resolve_ref r)"
  by (cases r) simp_all

lemma getMiddlewareName_bare_instance:
  "\<not> truthy (cls_namespace (constructor m)) \<Longrightarrow> id_method m = NoId \<Longrightarrow>
   getMiddlewareName (ArgObject m) = Inr (''undefined'' @ cls_name (constructor m))"
  by simp

text \<open>
  C5. The identity of an instance is the result of \<^verbatim>\<open>id()\<close> if it has one, else its
  class name, after the namespace and a dot when the class has a namespace. The code does
  so when the class has a namespace. For a class with no namespace the local variable
  \<^verbatim>\<open>namespace\<close> is still \<^verbatim>\<open>undefined\<close> when it is concatenated: an instance of
  \<^verbatim>\<open>Prisma\<close> (no namespace, no \<^verbatim>\<open>id()\<close>) is named \<^verbatim>\<open>undefinedPrisma\<close>, while
  the class itself resolves to \<^verbatim>\<open>Prisma\<close>.
\<close>

theorem getMiddlewareName_undefined_prefix:
  "getMiddlewareName
     (ArgObject \<lparr>constructor = \<lparr>cls_name = ''Prisma'', cls_namespace = None\<rparr>,
                 dependencies = [], id_method = NoId, handle = ()\<rparr>)
     = Inr ''undefinedPrisma''
   \<and> getMiddlewareName (ArgClass \<lparr>cls_name = ''Prisma'', cls_namespace = None\<rparr> :: unit mw_arg)
     = Inr ''Prisma''"
  by simp

section \<open>Properties of the configuration merge\<close>

lemma loadConfiguration_at_Inr:
  assumes "loadConfiguration_at base route h = Inr (a, h')"
  shows "base < length h \<and> route < length h \<and> a = length h
       \<and> loadConfiguration (h ! base) (h ! route) = Inr (h' ! a)
       \<and> length h' = length h + 2
       \<and> (\<forall>i < length h. h' ! i = h ! i)"
  using assms
  by (auto simp: loadConfiguration_at_def alloc_def Let_def nth_append nth_list_update
           split: if_splits sum.splits)

lemma loadConfiguration_at_example:
  "loadConfiguration_at 0 1
     [DefaultConfiguration,
      \<lparr>debug = Some True, middleware = None, skip = Some [RefString ''Strate.Validation'']\<rparr>,
      \<lparr>debug = None, middleware = None, skip = None\<rparr>]
   = Inr (3,
     [DefaultConfiguration :: unit StrateConfiguration,
      \<lparr>debug = Some True, middleware = None, skip = Some [RefString ''Strate.Validation'']\<rparr>,
      \<lparr>debug = None, middleware = None, skip = None\<rparr>,
      \<lparr>debug = Some True, middleware = Some [], skip = Some [RefString ''Strate.Validation'']\<rparr>,
      \<lparr>debug = Some True, middleware = None, skip = None\<rparr>])"
  by (simp add: loadConfiguration_at_def loadConfiguration_def alloc_def DefaultConfiguration_def
       base_rest_def route_rest_def Object_assign_def)

text \<open>
  C10, as stated, fails. The store holds the default configuration at address 0 and two
  route configurations at 1 and 2. The first invocation merges the route \<^verbatim>\<open>{debug:
  true, skip: ['Strate.Validation']}\<close> with the default: the object returned is a new one
  (address 3, not 0), and the default configuration at address 0 is as before. The
  second invocation merges the empty route configuration with the same base and gets
  \<^verbatim>\<open>debug: false\<close> and an empty skip list: nothing of the first invocation is visible.
\<close>

theorem loadConfiguration_base_not_mutated:
  "loadConfiguration_at 0 1
     [DefaultConfiguration,
      \<lparr>debug = Some True, middleware = None, skip = Some [RefString ''Strate.Validation'']\<rparr>,
      \<lparr>debug = None, middleware = None, skip = None\<rparr>]
   = Inr (3,
     [\<lparr>debug = Some False, middleware = None, skip = None\<rparr> :: unit StrateConfiguration,
      \<lparr>debug = Some True, middleware = None, skip = Some [RefString ''Strate.Validation'']\<rparr>,
      \<lparr>debug = None, middleware = None, skip = None\<rparr>,
      \<lparr>debug = Some True, middleware = Some [], skip = Some [RefString ''Strate.Validation'']\<rparr>,
      \<lparr>debug = Some True, middleware = None, skip = None\<rparr>])
  \<and> (3::nat) \<noteq> 0
  \<and> loadConfiguration_at 0 2
     [\<lparr>debug = Some False, middleware = None, skip = None\<rparr> :: unit StrateConfiguration,
      \<lparr>debug = Some True, middleware = None, skip = Some [RefString ''Strate.Validation'']\<rparr>,
      \<lparr>debug = None, middleware = None, skip = None\<rparr>,
      \<lparr>debug = Some True, middleware = Some [], skip = Some [RefString ''Strate.Validation'']\<rparr>,
      \<lparr>debug = Some True, middleware = None, skip = None\<rparr>]
   = Inr (5,
     [\<lparr>debug = Some False, middleware = None, skip = None\<rparr> :: unit StrateConfiguration,
      \<lparr>debug = Some True, middleware = None, skip = Some [RefString ''Strate.Validation'']\<rparr>,
      \<lparr>debug = None, middleware = None, skip = None\<rparr>,
      \<lparr>debug = Some True, middleware = Some [], skip = Some [RefString ''Strate.Validation'']\<rparr>,
      \<lparr>debug = Some True, middleware = None, skip = None\<rparr>,
      \<lparr>debug = Some False, middleware = Some [], skip = Some []\<rparr>,
      \<lparr>debug = None, middleware = None, skip = None\<rparr>])"
  using loadConfiguration_at_example
  by (simp add: loadConfiguration_at_def loadConfiguration_def alloc_def DefaultConfiguration_def
       base_rest_def route_rest_def Object_assign_def)

text \<open>
  C10, amended. \<^verbatim>\<open>loadConfiguration\<close> leaves both of its arguments as they are: the
  object it writes to and returns is the new object its first parameter's rest pattern
  made, at an address different from the base's and the route's, and it holds the merge
  of the base and the route. So a later invocation with the same base merges the base as
  it was before the first one.
\<close>

theorem loadConfiguration_at_fresh:
  assumes first: "loadConfiguration_at base route h = Inr (a, h')"
  shows "a \<noteq> base \<and> a \<noteq> route \<and> h' ! base = h ! base \<and> h' ! route = h ! route
       \<and> loadConfiguration (h ! base) (h ! route) = Inr (h' ! a)
       \<and> (\<forall>route' b h''. loadConfiguration_at base route' h' = Inr (b, h'') \<longrightarrow>
             loadConfiguration (h ! base) (h' ! route') = Inr (h'' ! b))"
proof -
  note f = loadConfiguration_at_Inr [OF first]
  have 1: "a \<noteq> base \<and> a \<noteq> route \<and> h' ! base = h ! base \<and> h' ! route = h ! route
       \<and> loadConfiguration (h ! base) (h ! route) = Inr (h' ! a)"
    using f by auto
  have 2: "\<forall>route' b h''. loadConfiguration_at base route' h' = Inr (b, h'') \<longrightarrow>
             loadConfiguration (h ! base) (h' ! route') = Inr (h'' ! b)"
  proof (intro allI impI)
    fix route' b h''
    assume "loadConfiguration_at base route' h' = Inr (b, h'')"
    from loadConfiguration_at_Inr [OF this] f show
      "loadConfiguration (h ! base) (h' ! route') = Inr (h'' ! b)"
      by auto
  qed
  from 1 2 show ?thesis by blast
qed

theorem loadConfiguration_at_fresh_witness:
  "(3::nat) \<noteq> 0
   \<and> loadConfiguration (DefaultConfiguration :: unit StrateConfiguration)
       \<lparr>debug = Some True, middleware = None, skip = Some [RefString ''Strate.Validation'']\<rparr>
     = Inr \<lparr>debug = Some True, middleware = Some [],
            skip = Some [RefString ''Strate.Validation'']\<rparr>"
  using loadConfiguration_at_fresh [OF loadConfiguration_at_example]
  by simp

section \<open>Properties of the context object\<close>

lemmas context_eval =
  proxy_get_def proxy_set_def target_hasOwnProperty_def inherited_truthy_def
  Reflect_get_def Reflect_set_def written_def inherited_def from_Object_prototype_def
  proto_accessor_def hasOwnProperty_def Object_prototype_def Object_prototype_keys_def
  createContext_def

lemma target_hasOwnProperty_builtin:
  assumes "builtin_in_place w"
  shows "target_hasOwnProperty k w = (Inr (hasOwnProperty (target (ctx w)) k), w)"
  using assms
  by (simp add: builtin_in_place_def target_hasOwnProperty_def Reflect_get_def inherited_def
        from_Object_prototype_def hasOwnProperty_def Object_prototype_def
        Object_prototype_keys_def inherited_truthy_def)

lemma proxy_set_builtin:
  assumes "builtin_in_place w"
  shows "proxy_set k v w = (None, assigned k v w)"
  by (simp add: proxy_set_def target_hasOwnProperty_builtin [OF assms] assigned_def)

lemma proxy_get_builtin:
  assumes "builtin_in_place w"
  shows "proxy_get k w
         = (Inr (Reflect_get Object_prototype (target (ctx w)) k),
            if hasOwnProperty (target (ctx w)) k then w
            else logged (trap_warn (ctx w)) (not_found_message k) w)"
  using assms
  by (simp add: proxy_get_def target_hasOwnProperty_builtin [OF assms] logged_def
        builtin_in_place_def)

lemma written_own:
  assumes "k \<noteq> ''__proto__'' \<or> hasOwnProperty (target c) k"
  shows "written k v c = c\<lparr>target := AList.update k v (target c)\<rparr>"
  using assms by (auto simp: written_def Reflect_set_def proto_accessor_def)

lemma assigned_simps:
  "trap_warn (ctx (assigned k v w)) = trap_warn (ctx w)"
  "response (assigned k v w) = response w"
  "handlerHasBeenExecuted (assigned k v w) = handlerHasBeenExecuted w"
  by (simp_all add: assigned_def written_def split: prod.splits)

lemma builtin_in_place_assigned:
  assumes "k \<noteq> ''__proto__''" and "k \<noteq> ''hasOwnProperty''"
  shows "builtin_in_place (assigned k v w) = builtin_in_place w"
  using assms
  by (simp add: builtin_in_place_def assigned_def written_own hasOwnProperty_def update_conv')

lemma assignments_builtin:
  assumes "''hasOwnProperty'' \<notin> fst ` set ws" and "''__proto__'' \<notin> fst ` set ws"
    and "builtin_in_place w"
  shows "fst (assignments ws w) = None
       \<and> trap_warn (ctx (snd (assignments ws w))) = trap_warn (ctx w)
       \<and> builtin_in_place (snd (assignments ws w))"
  using assms
proof (induction ws arbitrary: w)
  case Nil
  then show ?case by simp
next
  case (Cons a ws)
  obtain k v where a: "a = (k, v)" by (cases a)
  from Cons.prems a have k: "k \<noteq> ''hasOwnProperty''" "k \<noteq> ''__proto__''"
    and rest: "''hasOwnProperty'' \<notin> fst ` set ws" "''__proto__'' \<notin> fst ` set ws" by auto
  have b: "builtin_in_place (assigned k v w)"
    using Cons.prems(3) k by (simp add: builtin_in_place_assigned)
  from Cons.IH [OF rest b] show ?case
    by (simp add: a proxy_set_builtin [OF Cons.prems(3)] assigned_simps)
qed

lemma Reflect_get_own:
  "map_of obj k = Some v \<Longrightarrow> Reflect_get proto obj k = v"
  by (simp add: Reflect_get_def)

lemma Reflect_get_absent:
  "map_of obj k = None \<Longrightarrow>
   Reflect_get Object_prototype obj k
   = (if k \<in> set Object_prototype_keys then VInherited k else Undefined)"
  by (simp add: Reflect_get_def inherited_def from_Object_prototype_def Object_prototype_def
        Object_prototype_keys_def)

lemma Reflect_get_set:
  "k \<noteq> ''__proto__'' \<Longrightarrow> Reflect_get proto' (snd (Reflect_set proto obj k v)) k = v"
  by (simp add: Reflect_get_def Reflect_set_def update_conv')

text \<open>
  C8, as stated, fails. In a context just built by \<^verbatim>\<open>createContext\<close>, the key
  \<^verbatim>\<open>toString\<close> is not present: reading it calls the logger, and yields the function
  inherited from \<^verbatim>\<open>Object.prototype\<close>, not \<^verbatim>\<open>undefined\<close>. And after the assignment
  \<^verbatim>\<open>context.hasOwnProperty = 1\<close>, which the \<^verbatim>\<open>set\<close> trap lets through, reading the
  absent key \<^verbatim>\<open>user\<close> throws a \<^verbatim>\<open>TypeError\<close>: the trap calls
  \<^verbatim>\<open>target.hasOwnProperty\<close>, which is then the number.
\<close>

theorem context_read_inherited_or_throws:
  "proxy_get ''toString'' (world_of (createContext () quiet recorder))
   = (Inr (VInherited ''toString''),
      (world_of (createContext () quiet recorder))\<lparr>console := [not_found_message ''toString'']\<rparr>)
   \<and> fst (proxy_set ''hasOwnProperty'' (VNumber 1) (world_of (createContext () quiet recorder)))
       = None
   \<and> fst (proxy_get ''user''
            (snd (proxy_set ''hasOwnProperty'' (VNumber 1)
                    (world_of (createContext () quiet recorder)))))
       = Inl (TypeError ''target.hasOwnProperty is not a function'')"
  by (simp add: context_eval world_of_def recorder_def)

text \<open>
  C8, amended. Let a state hold a context built by \<^verbatim>\<open>createContext\<close> with the logger
  \<open>warn\<close>, and let \<open>w\<close> be the state after any assignments to keys other than
  \<^verbatim>\<open>hasOwnProperty\<close> and \<^verbatim>\<open>__proto__\<close>. None of the assignments throws. Assigning
  to a key that is present calls \<open>warn\<close> with the reassignment message and stores the new
  value, which the next read returns, without a warning. Reading a key that is not
  present calls \<open>warn\<close> with the not-found message, does not throw, and yields
  \<^verbatim>\<open>undefined\<close>, unless \<^verbatim>\<open>Object.prototype\<close> has a property of that name: then it
  yields the inherited value. Reading or writing a key inside a stored object calls no
  logger, whether the inner key is present or not, and the write (to a key other than
  \<^verbatim>\<open>__proto__\<close>) is stored. The logger the traps call is the one
  \<^verbatim>\<open>createContext\<close> stores as \<^verbatim>\<open>strate.warn\<close>.
\<close>

theorem context_traps:
  fixes w0 :: "'c world"
  assumes built: "ctx w0 = createContext configuration debug_fn warn"
    and k1: "''hasOwnProperty'' \<notin> fst ` set ws"
    and k2: "''__proto__'' \<notin> fst ` set ws"
    and w: "w = snd (assignments ws w0)"
  shows "fst (assignments ws w0) = None
       \<and> (hasOwnProperty (target (ctx w)) k \<longrightarrow>
            proxy_set k v w
              = (None, w\<lparr>console := warn (reassigned_message k) (console w),
                         ctx := (ctx w)\<lparr>target := AList.update k v (target (ctx w))\<rparr>\<rparr>)
          \<and> proxy_get k (snd (proxy_set k v w)) = (Inr v, snd (proxy_set k v w)))
       \<and> (\<not> hasOwnProperty (target (ctx w)) k \<longrightarrow>
            proxy_get k w
              = (Inr (if k \<in> set Object_prototype_keys then VInherited k else Undefined),
                 w\<lparr>console := warn (not_found_message k) (console w)\<rparr>))
       \<and> (map_of (target (ctx w)) k = Some (VObject props) \<longrightarrow>
            nested_get k inner w = (Inr (Reflect_get Object_prototype props inner), w)
          \<and> (inner \<noteq> ''__proto__'' \<longrightarrow>
                (\<exists>w'. nested_set k inner v w = (None, w') \<and> console w' = console w
                   \<and> nested_get k inner w' = (Inr v, w'))))
       \<and> nested_get ''strate'' ''warn'' w0 = (Inr (VFunction warn), w0)"
proof -
  have b0: "builtin_in_place w0"
    by (simp add: builtin_in_place_def built createContext_def hasOwnProperty_def)
  from assignments_builtin [OF k1 k2 b0] w have
    0: "fst (assignments ws w0) = None" and tw: "trap_warn (ctx w) = warn"
    and b: "builtin_in_place w"
    by (simp_all add: built createContext_def)
  from b have own: "\<not> hasOwnProperty (target (ctx w)) ''hasOwnProperty''"
    and pr: "prototype (ctx w) = Object_prototype"
    by (simp_all add: builtin_in_place_def)
  have 1: "hasOwnProperty (target (ctx w)) k \<longrightarrow>
            proxy_set k v w
              = (None, w\<lparr>console := warn (reassigned_message k) (console w),
                         ctx := (ctx w)\<lparr>target := AList.update k v (target (ctx w))\<rparr>\<rparr>)
          \<and> proxy_get k (snd (proxy_set k v w)) = (Inr v, snd (proxy_set k v w))"
  proof
    assume p: "hasOwnProperty (target (ctx w)) k"
    with own have kh: "k \<noteq> ''hasOwnProperty''" by auto
    have s: "proxy_set k v w
              = (None, w\<lparr>console := warn (reassigned_message k) (console w),
                         ctx := (ctx w)\<lparr>target := AList.update k v (target (ctx w))\<rparr>\<rparr>)"
      using p tw by (simp add: proxy_set_builtin [OF b] assigned_def written_own)
    let ?w' = "w\<lparr>console := warn (reassigned_message k) (console w),
                 ctx := (ctx w)\<lparr>target := AList.update k v (target (ctx w))\<rparr>\<rparr>"
    have b': "builtin_in_place ?w'"
      using own pr kh by (simp add: builtin_in_place_def hasOwnProperty_def update_conv')
    have "proxy_get k ?w' = (Inr v, ?w')"
      unfolding proxy_get_builtin [OF b']
      by (simp add: hasOwnProperty_def Reflect_get_def update_conv')
    with s show "proxy_set k v w
              = (None, w\<lparr>console := warn (reassigned_message k) (console w),
                         ctx := (ctx w)\<lparr>target := AList.update k v (target (ctx w))\<rparr>\<rparr>)
          \<and> proxy_get k (snd (proxy_set k v w)) = (Inr v, snd (proxy_set k v w))"
      by simp
  qed
  have 2: "\<not> hasOwnProperty (target (ctx w)) k \<longrightarrow>
            proxy_get k w
              = (Inr (if k \<in> set Object_prototype_keys then VInherited k else Undefined),
                 w\<lparr>console := warn (not_found_message k) (console w)\<rparr>)"
    using tw
    by (simp add: proxy_get_builtin [OF b] hasOwnProperty_def Reflect_get_absent logged_def)
  have 3: "map_of (target (ctx w)) k = Some (VObject props) \<longrightarrow>
            nested_get k inner w = (Inr (Reflect_get Object_prototype props inner), w)
          \<and> (inner \<noteq> ''__proto__'' \<longrightarrow>
                (\<exists>w'. nested_set k inner v w = (None, w') \<and> console w' = console w
                   \<and> nested_get k inner w' = (Inr v, w')))"
  proof
    assume o: "map_of (target (ctx w)) k = Some (VObject props)"
    then have p: "hasOwnProperty (target (ctx w)) k" by (simp add: hasOwnProperty_def)
    with own have kh: "k \<noteq> ''hasOwnProperty''" by auto
    have g: "proxy_get k w = (Inr (VObject props), w)"
      using o p by (simp add: proxy_get_builtin [OF b] Reflect_get_own)
    let ?obj = "VObject (snd (Reflect_set Object_prototype props inner v)) :: 'c jsval"
    let ?w' = "w\<lparr>ctx := (ctx w)\<lparr>target := AList.update k ?obj (target (ctx w))\<rparr>\<rparr>"
    have s: "nested_set k inner v w = (None, ?w')"
      by (simp add: nested_set_def g)
    have b': "builtin_in_place ?w'"
      using own pr kh by (simp add: builtin_in_place_def hasOwnProperty_def update_conv')
    have g': "proxy_get k ?w' = (Inr ?obj, ?w')"
      unfolding proxy_get_builtin [OF b']
      by (simp add: hasOwnProperty_def Reflect_get_def update_conv')
    have r: "inner \<noteq> ''__proto__'' \<longrightarrow> nested_get k inner ?w' = (Inr v, ?w')"
      by (simp add: nested_get_def g' Reflect_get_set)
    from g s r show "nested_get k inner w = (Inr (Reflect_get Object_prototype props inner), w)
          \<and> (inner \<noteq> ''__proto__'' \<longrightarrow>
                (\<exists>w'. nested_set k inner v w = (None, w') \<and> console w' = console w
                   \<and> nested_get k inner w' = (Inr v, w')))"
      by (simp add: nested_get_def)
  qed
  have 4: "nested_get ''strate'' ''warn'' w0 = (Inr (VFunction warn), w0)"
    by (simp add: nested_get_def proxy_get_builtin [OF b0] built createContext_def
          Reflect_get_def hasOwnProperty_def)
  from 0 1 2 3 4 show ?thesis by blast
qed

theorem context_traps_witness:
  "fst (assignments [(''prisma'', VObject [(''url'', VString ''db'')])]
          (world_of (createContext () quiet recorder))) = None
   \<and> proxy_set ''prisma'' (VNumber 1)
       (snd (assignments [(''prisma'', VObject [(''url'', VString ''db'')])]
               (world_of (createContext () quiet recorder))))
     = (None, \<lparr>console = [reassigned_message ''prisma''],
               ctx = \<lparr>target = [(''strate'', VObject [(''configuration'', VConfiguration ()),
                                                      (''warn'', VFunction recorder),
                                                      (''debug'', VFunction quiet)]),
                                (''prisma'', VNumber 1)],
                      trap_warn = recorder, prototype = Object_prototype\<rparr>,
               response = [], handlerHasBeenExecuted = False\<rparr>)
   \<and> proxy_get ''user''
       (snd (assignments [(''prisma'', VObject [(''url'', VString ''db'')])]
               (world_of (createContext () quiet recorder))))
     = (Inr Undefined,
        (snd (assignments [(''prisma'', VObject [(''url'', VString ''db'')])]
                (world_of (createContext () quiet recorder))))
          \<lparr>console := [not_found_message ''user'']\<rparr>)
   \<and> nested_get ''prisma'' ''port''
       (snd (assignments [(''prisma'', VObject [(''url'', VString ''db'')])]
               (world_of (createContext () quiet recorder))))
     = (Inr Undefined,
        snd (assignments [(''prisma'', VObject [(''url'', VString ''db'')])]
               (world_of (createContext () quiet recorder))))"
proof -
  let ?init = "world_of (createContext () quiet recorder) :: unit world"
  let ?ws = "[(''prisma'', VObject [(''url'', VString ''db'')])] :: (string \<times> unit jsval) list"
  let ?w = "snd (assignments ?ws ?init)"
  have built: "ctx ?init = createContext () quiet recorder" by (simp add: world_of_def)
  have k1: "''hasOwnProperty'' \<notin> fst ` set ?ws" and k2: "''__proto__'' \<notin> fst ` set ?ws"
    by simp_all
  have w: "?w = \<lparr>console = [],
               ctx = \<lparr>target = [(''strate'', VObject [(''configuration'', VConfiguration ()),
                                                      (''warn'', VFunction recorder),
                                                      (''debug'', VFunction quiet)]),
                                (''prisma'', VObject [(''url'', VString ''db'')])],
                      trap_warn = recorder, prototype = Object_prototype\<rparr>,
               response = [], handlerHasBeenExecuted = False\<rparr>"
    by (simp add: context_eval world_of_def)
  note a = context_traps [OF built k1 k2 refl, of "''prisma''" "VNumber 1"
              "[(''url'', VString ''db'')]" "''port''"]
  note b = context_traps [OF built k1 k2 refl, of "''user''" "VNumber 1" "[]" "''port''"]
  from a b show ?thesis
    unfolding w
    by (simp add: hasOwnProperty_def Reflect_get_def inherited_def from_Object_prototype_def
          Object_prototype_def Object_prototype_keys_def recorder_def)
qed

section \<open>Properties of the ErrorHandler middleware\<close>

text \<open>
  C4. In production mode a non-sentinel error of the continuation should be suppressed
  once the fallback response is sent. The \<^verbatim>\<open>catch\<close> clause calls \<^verbatim>\<open>error()\<close>,
  which sends the response and then throws the sentinel, inside the clause: the
  fallback response (status 500) is sent and \<^verbatim>\<open>handle\<close> ends by throwing
  \<^verbatim>\<open>HandledError\<close> to its caller.
\<close>

theorem ErrorHandler_production_throws_sentinel:
  "ErrorHandler_handle (Some ''production'') ''ERR-0000'' ''An unspecified error occurred.'' 500
     (\<lambda>w. (Some (AppError ''boom''), w))
     (\<lparr>console = [], ctx = createContext () (\<lambda>m out. out) (\<lambda>m out. out),
       response = [], handlerHasBeenExecuted = False\<rparr> :: unit world)
   = (Some HandledError,
      \<lparr>console = [],
       ctx = (createContext () (\<lambda>m out. out) (\<lambda>m out. out))
               \<lparr>target := target (createContext () (\<lambda>m out. out) (\<lambda>m out. out)) @
                   [(''error'', VResponder ''ERR-0000'' ''An unspecified error occurred.'' 500)]\<rparr>,
       response = [(500, VObject [(''error'',
                      VObject [(''code'', VString ''ERR-0000''),
                               (''message'', VString ''An unspecified error occurred.'')])])],
       handlerHasBeenExecuted = False\<rparr>)"
  by (simp add: ErrorHandler_handle_def install_error_def error_responder_def context_eval)

section \<open>Properties of the dependency graph\<close>

lemma topo_Nil: "topo E []"
  by (simp add: topo_def)

lemma topo_snoc: "topo E (res @ [n]) = (n \<notin> set res \<and> set (succs E n) \<subseteq> set res \<and> topo E res)"
  by (simp add: topo_def)

lemma DFS_sound:
  "(\<forall>res'. DFS E path node res = Inr res' \<longrightarrow>
      (\<exists>new. res' = res @ new) \<and> node \<in> set res' \<and> set path \<inter> set res' \<subseteq> set res
      \<and> (topo E res \<longrightarrow> topo E res') \<and> set res' \<subseteq> set res \<union> fst ` set E)"
  "(\<forall>res'. DFS_all E path ns res = Inr res' \<longrightarrow>
      (\<exists>new. res' = res @ new) \<and> set ns \<subseteq> set res' \<and> set path \<inter> set res' \<subseteq> set res
      \<and> (topo E res \<longrightarrow> topo E res') \<and> set res' \<subseteq> set res \<union> fst ` set E)"
proof (induction E path node res and E path ns res rule: DFS_DFS_all.induct)
  case (1 edges currentPath node result)
  show ?case
  proof (intro allI impI)
    fix res'
    assume r: "DFS edges currentPath node result = Inr res'"
    show "(\<exists>new. res' = result @ new) \<and> node \<in> set res' \<and> set currentPath \<inter> set res' \<subseteq> set result
      \<and> (topo edges result \<longrightarrow> topo edges res') \<and> set res' \<subseteq> set result \<union> fst ` set edges"
    proof (cases "node \<in> set result")
      case True
      with r show ?thesis by simp
    next
      case False
      with r have np: "node \<notin> set currentPath" by (simp split: if_splits)
      from r False np obtain es where es: "map_of edges node = Some es"
        by (cases "map_of edges node") simp_all
      from r False np es obtain r1 where
        r1: "DFS_all edges (node # currentPath) es result = Inr r1" and res': "res' = r1 @ [node]"
        by (cases "DFS_all edges (node # currentPath) es result") simp_all
      from "1.IH" [OF False np es] r1 have
        ih: "(\<exists>new. r1 = result @ new)" "set es \<subseteq> set r1"
            "set (node # currentPath) \<inter> set r1 \<subseteq> set result"
            "topo edges result \<longrightarrow> topo edges r1" "set r1 \<subseteq> set result \<union> fst ` set edges"
        by blast+
      from ih(3) False have n1: "node \<notin> set r1" by auto
      have key: "node \<in> fst ` set edges"
        using map_of_SomeD [OF es] by force
      have "topo edges result \<longrightarrow> topo edges res'"
        using ih(2,4) n1 es by (simp add: res' topo_snoc succs_def)
      moreover have "set currentPath \<inter> set res' \<subseteq> set result"
        using ih(3) np by (auto simp: res')
      moreover have "\<exists>new. res' = result @ new"
        using ih(1) by (auto simp: res')
      moreover have "set res' \<subseteq> set result \<union> fst ` set edges"
        using ih(5) key by (auto simp: res')
      ultimately show ?thesis by (simp add: res')
    qed
  qed
next
  case (2 edges currentPath result)
  show ?case by simp
next
  case (3 edges currentPath n ns result)
  show ?case
  proof (intro allI impI)
    fix res'
    assume r: "DFS_all edges currentPath (n # ns) result = Inr res'"
    then obtain r1 where r1: "DFS edges currentPath n result = Inr r1"
      and r2: "DFS_all edges currentPath ns r1 = Inr res'"
      by (cases "DFS edges currentPath n result") simp_all
    from "3.IH"(1) r1 have
      a: "(\<exists>new. r1 = result @ new)" "n \<in> set r1" "set currentPath \<inter> set r1 \<subseteq> set result"
         "topo edges result \<longrightarrow> topo edges r1" "set r1 \<subseteq> set result \<union> fst ` set edges"
      by blast+
    from "3.IH"(2) [OF r1] r2 have
      b: "(\<exists>new. res' = r1 @ new)" "set ns \<subseteq> set res'" "set currentPath \<inter> set res' \<subseteq> set r1"
         "topo edges r1 \<longrightarrow> topo edges res'" "set res' \<subseteq> set r1 \<union> fst ` set edges"
      by blast+
    from a b show "(\<exists>new. res' = result @ new) \<and> set (n # ns) \<subseteq> set res'
      \<and> set currentPath \<inter> set res' \<subseteq> set result
      \<and> (topo edges result \<longrightarrow> topo edges res') \<and> set res' \<subseteq> set result \<union> fst ` set edges"
      by auto
  qed
qed

lemma pos_less: "x \<in> set xs \<Longrightarrow> pos xs x < length xs \<and> xs ! pos xs x = x"
  by (induction xs) auto

lemma pos_append: "x \<in> set xs \<Longrightarrow> pos (xs @ ys) x = pos xs x"
  by (induction xs) auto

lemma pos_snoc_new: "x \<notin> set xs \<Longrightarrow> pos (xs @ [x]) x = length xs"
  by (induction xs) auto

lemma topo_edge:
  "topo E res \<Longrightarrow> n \<in> set res \<Longrightarrow> m \<in> set (succs E n) \<Longrightarrow>
   m \<in> set res \<and> pos res m < pos res n"
proof (induction res rule: rev_induct)
  case Nil
  then show ?case by simp
next
  case (snoc x xs)
  from snoc.prems(1) have t: "x \<notin> set xs" "set (succs E x) \<subseteq> set xs" "topo E xs"
    by (simp_all add: topo_snoc)
  show ?case
  proof (cases "n = x")
    case True
    with snoc.prems(3) t(2) have m: "m \<in> set xs" by auto
    then have "pos (xs @ [x]) m = pos xs m" by (rule pos_append)
    moreover have "pos xs m < length xs" using m by (simp add: pos_less)
    moreover have "pos (xs @ [x]) n = length xs" using True t(1) by (simp add: pos_snoc_new)
    ultimately show ?thesis using m by simp
  next
    case False
    with snoc.prems(2) have n: "n \<in> set xs" by simp
    from snoc.IH [OF t(3) n snoc.prems(3)] have m: "m \<in> set xs" "pos xs m < pos xs n"
      by simp_all
    then show ?thesis using n by (simp add: pos_append)
  qed
qed

lemma topo_trancl:
  "(n, m) \<in> (edge_rel E)\<^sup>+ \<Longrightarrow> topo E res \<Longrightarrow> n \<in> set res \<Longrightarrow>
   m \<in> set res \<and> pos res m < pos res n"
proof (induction rule: trancl_induct)
  case (base y)
  then show ?case by (simp add: edge_rel_def topo_edge)
next
  case (step y z)
  from step.IH [OF step.prems] have y: "y \<in> set res" "pos res y < pos res n" by simp_all
  from step.hyps(2) have "z \<in> set (succs E y)" by (simp add: edge_rel_def)
  from topo_edge [OF step.prems(1) y(1) this] y(2) show ?case by simp
qed

lemma topo_acyclic: "topo E res \<Longrightarrow> n \<in> set res \<Longrightarrow> (n, n) \<notin> (edge_rel E)\<^sup>+"
  using topo_trancl [of n n E res] by auto

lemma DFS_error_kind:
  assumes closed: "\<forall>n es. map_of E n = Some es \<longrightarrow> set es \<subseteq> fst ` set E"
  shows "node \<in> fst ` set E \<longrightarrow> (\<forall>e. DFS E path node res = Inl e \<longrightarrow> (\<exists>p. e = DependencyCycle p))"
    and "set ns \<subseteq> fst ` set E \<longrightarrow> (\<forall>e. DFS_all E path ns res = Inl e \<longrightarrow> (\<exists>p. e = DependencyCycle p))"
  using closed
proof (induction E path node res and E path ns res rule: DFS_DFS_all.induct)
  case (1 edges currentPath node result)
  show ?case
  proof (intro impI allI)
    fix e
    assume key: "node \<in> fst ` set edges" and r: "DFS edges currentPath node result = Inl e"
    from r have nr: "node \<notin> set result" by (auto split: if_splits)
    show "\<exists>p. e = DependencyCycle p"
    proof (cases "node \<in> set currentPath")
      case True
      with r nr show ?thesis by auto
    next
      case False
      from key obtain es where es: "map_of edges node = Some es"
        by (metis domD dom_map_of_conv_image_fst)
      from "1.prems" es have sub: "set es \<subseteq> fst ` set edges" by blast
      from r nr False es have "DFS_all edges (node # currentPath) es result = Inl e"
        by (auto split: sum.splits)
      with "1.IH" [OF nr False es "1.prems"] sub show ?thesis by blast
    qed
  qed
next
  case (2 edges currentPath result)
  show ?case by simp
next
  case (3 edges currentPath n ns result)
  show ?case
  proof (intro impI allI)
    fix e
    assume sub: "set (n # ns) \<subseteq> fst ` set edges"
      and r: "DFS_all edges currentPath (n # ns) result = Inl e"
    show "\<exists>p. e = DependencyCycle p"
    proof (cases "DFS edges currentPath n result")
      case (Inl e')
      with r have "e' = e" by simp
      with "3.IH"(1) [OF "3.prems"] sub Inl show ?thesis by auto
    next
      case (Inr r1)
      with r have "DFS_all edges currentPath ns r1 = Inl e" by simp
      with "3.IH"(2) [OF Inr "3.prems"] sub show ?thesis by auto
    qed
  qed
qed

lemma wf_graph_keys:
  assumes "wf_graph g"
  shows "fst ` set (outgoingEdges g) = fst ` set (nodes g)"
    and "fst ` set (incomingEdges g) = fst ` set (nodes g)"
proof -
  from assms have a: "map fst (outgoingEdges g) = map fst (nodes g)"
    and b: "map fst (incomingEdges g) = map fst (nodes g)"
    by (simp_all add: wf_graph_def)
  from a have "set (map fst (outgoingEdges g)) = set (map fst (nodes g))" by simp
  then show "fst ` set (outgoingEdges g) = fst ` set (nodes g)" by simp
  from b have "set (map fst (incomingEdges g)) = set (map fst (nodes g))" by simp
  then show "fst ` set (incomingEdges g) = fst ` set (nodes g)" by simp
qed

lemma wf_graph_closed:
  assumes "wf_graph g"
  shows "\<forall>n es. map_of (outgoingEdges g) n = Some es
           \<longrightarrow> set es \<subseteq> fst ` set (outgoingEdges g)"
proof (intro allI impI)
  fix n es
  assume "map_of (outgoingEdges g) n = Some es"
  then have "succs (outgoingEdges g) n = es" by (simp add: succs_def)
  with assms show "set es \<subseteq> fst ` set (outgoingEdges g)"
    unfolding wf_graph_keys(1) [OF assms] by (auto simp: wf_graph_def)
qed

lemma succs_key: "m \<in> set (succs E n) \<Longrightarrow> n \<in> fst ` set E"
proof -
  assume m: "m \<in> set (succs E n)"
  then obtain es where "map_of E n = Some es"
    by (cases "map_of E n") (simp_all add: succs_def)
  then have "(n, es) \<in> set E" by (rule map_of_SomeD)
  then show ?thesis by force
qed

lemma roots_reach_all:
  assumes wf: "wf_graph g"
    and rc: "topo (outgoingEdges g) rc" "fst ` set (nodes g) \<subseteq> set rc"
    and rr: "topo (outgoingEdges g) rr"
            "{k \<in> fst ` set (nodes g). map_of (incomingEdges g) k = Some []} \<subseteq> set rr"
  shows "k \<in> fst ` set (nodes g) \<Longrightarrow> k \<in> set rr"
proof (induction "length rc - pos rc k" arbitrary: k rule: less_induct)
  case less
  from less.prems wf_graph_keys(2) [OF wf] obtain ps where
    ps: "map_of (incomingEdges g) k = Some ps"
    by (metis domD dom_map_of_conv_image_fst)
  show ?case
  proof (cases ps)
    case Nil
    with ps less.prems rr(2) show ?thesis by auto
  next
    case (Cons p ps')
    with ps have "p \<in> set (succs (incomingEdges g) k)" by (simp add: succs_def)
    with wf have e: "k \<in> set (succs (outgoingEdges g) p)" by (simp add: wf_graph_def)
    then have pk: "p \<in> fst ` set (nodes g)"
      using succs_key wf_graph_keys(1) [OF wf] by blast
    with rc(2) have prc: "p \<in> set rc" by auto
    from topo_edge [OF rc(1) prc e] have "pos rc k < pos rc p" by simp
    moreover have "pos rc p < length rc" using prc by (simp add: pos_less)
    ultimately have "length rc - pos rc p < length rc - pos rc k" by arith
    from less.hyps [OF this pk] have "p \<in> set rr" .
    from topo_edge [OF rr(1) this e] show ?thesis by simp
  qed
qed

lemma overallOrder_sound:
  assumes wf: "wf_graph g" and ok: "overallOrder g = Inr order"
  shows "topo (outgoingEdges g) order \<and> set order = fst ` set (nodes g)"
proof (cases "nodes g = []")
  case True
  with ok show ?thesis by (simp add: overallOrder_def topo_Nil)
next
  case False
  let ?E = "outgoingEdges g"
  let ?keys = "map fst (nodes g)"
  let ?roots = "filter (\<lambda>node. map_of (incomingEdges g) node = Some []) ?keys"
  from False ok obtain rc where rc: "DFS_all ?E [] ?keys [] = Inr rc"
    and rr: "DFS_all ?E [] ?roots [] = Inr order"
    by (auto simp: overallOrder_def Let_def split: sum.splits)
  from DFS_sound(2) [of ?E "[]" ?keys "[]"] rc have
    c: "topo ?E rc" "set ?keys \<subseteq> set rc"
    by (simp_all add: topo_Nil)
  from DFS_sound(2) [of ?E "[]" ?roots "[]"] rr have
    r: "topo ?E order" "set ?roots \<subseteq> set order" "set order \<subseteq> fst ` set ?E"
    by (simp_all add: topo_Nil)
  have "fst ` set (nodes g) \<subseteq> set order"
  proof
    fix k assume "k \<in> fst ` set (nodes g)"
    then show "k \<in> set order"
      using roots_reach_all [OF wf c(1) _ r(1)] c(2) r(2) by auto
  qed
  with r(1,3) wf_graph_keys(1) [OF wf] show ?thesis by auto
qed

lemma overallOrder_cycle:
  assumes wf: "wf_graph g" and cyc: "(n, n) \<in> (edge_rel (outgoingEdges g))\<^sup>+"
  shows "\<exists>p. overallOrder g = Inl (DependencyCycle p)"
proof -
  let ?E = "outgoingEdges g"
  let ?keys = "map fst (nodes g)"
  from cyc obtain m where "(n, m) \<in> edge_rel ?E"
    by (meson tranclD)
  then have nk: "n \<in> fst ` set ?E"
    by (auto simp: edge_rel_def dest: succs_key)
  then have key: "n \<in> set ?keys" using wf_graph_keys(1) [OF wf] by simp
  then have ne: "?keys \<noteq> []" by auto
  show ?thesis
  proof (cases "DFS_all ?E [] ?keys []")
    case (Inl e)
    have "set ?keys \<subseteq> fst ` set ?E" using wf_graph_keys(1) [OF wf] by simp
    with DFS_error_kind(2) [OF wf_graph_closed [OF wf], of ?keys "[]" "[]"] Inl
    obtain p where "e = DependencyCycle p" by blast
    with Inl ne show ?thesis by (simp add: overallOrder_def)
  next
    case (Inr rc)
    from DFS_sound(2) [of ?E "[]" ?keys "[]"] Inr have
      c: "topo ?E rc" "set ?keys \<subseteq> set rc"
      by (simp_all add: topo_Nil)
    from topo_acyclic [OF c(1)] key c(2) cyc show ?thesis by blast
  qed
qed

lemma map_fst_map_entry: "map fst (AList.map_entry k f xs) = map fst xs"
  by (induction xs) auto

lemma succs_map_entry:
  "succs (AList.map_entry k f xs) n = (if n = k then (case map_of xs k of None \<Rightarrow> [] | Some es \<Rightarrow> f es) else succs xs n)"
  by (simp add: succs_def map_of_map_entry split: option.splits)

lemma succs_append_empty: "succs (xs @ [(n, [])]) m = succs xs m"
  by (auto simp: succs_def map_add_def split: option.splits)

lemma hasNode_iff: "hasNode g n \<longleftrightarrow> n \<in> fst ` set (nodes g)"
  by (simp add: hasNode_def map_of_eq_None_iff)

lemma wf_graph_new: "wf_graph new_DepGraph"
  by (simp add: wf_graph_def new_DepGraph_def succs_def)

lemma wf_graph_addNode:
  assumes wf: "wf_graph g"
  shows "wf_graph (addNode g n d)"
proof (cases "hasNode g n")
  case True
  with wf show ?thesis by (simp add: addNode_def)
next
  case False
  then have nk: "n \<notin> fst ` set (nodes g)" by (simp add: hasNode_iff)
  let ?g = "g\<lparr>nodes := nodes g @ [(n, d)],
               outgoingEdges := outgoingEdges g @ [(n, [])],
               incomingEdges := incomingEdges g @ [(n, [])]\<rparr>"
  from wf have a: "map fst (outgoingEdges g) = map fst (nodes g)"
    and b: "map fst (incomingEdges g) = map fst (nodes g)"
    and c: "distinct (map fst (nodes g))"
    and d: "\<forall>n m. m \<in> set (succs (outgoingEdges g) n) \<longrightarrow> m \<in> fst ` set (nodes g)"
    and e: "\<forall>n p. p \<in> set (succs (incomingEdges g) n) \<longrightarrow> n \<in> set (succs (outgoingEdges g) p)"
    by (simp_all add: wf_graph_def)
  have "wf_graph ?g"
    unfolding wf_graph_def
  proof (intro conjI)
    show "map fst (outgoingEdges ?g) = map fst (nodes ?g)" using a by simp
    show "map fst (incomingEdges ?g) = map fst (nodes ?g)" using b by simp
    show "distinct (map fst (nodes ?g))" using c nk by simp
    show "\<forall>n m. m \<in> set (succs (outgoingEdges ?g) n) \<longrightarrow> m \<in> fst ` set (nodes ?g)"
      using d by (simp add: succs_append_empty)
    show "\<forall>n p. p \<in> set (succs (incomingEdges ?g) n) \<longrightarrow> n \<in> set (succs (outgoingEdges ?g) p)"
      using e by (simp add: succs_append_empty)
  qed
  with False show ?thesis by (simp add: addNode_def)
qed

lemma addNode_keys:
  "fst ` set (nodes (addNode g n d)) = insert n (fst ` set (nodes g))"
  by (auto simp: addNode_def hasNode_iff)

lemma addNode_edges:
  "edge_rel (outgoingEdges (addNode g n d)) = edge_rel (outgoingEdges g)"
  by (simp add: addNode_def edge_rel_def succs_append_empty)

lemma addNode_nodes:
  "set (nodes (addNode g n d)) \<subseteq> insert (n, d) (set (nodes g))"
  by (auto simp: addNode_def)

lemma set_update_sub: "set (AList.update n d al) \<subseteq> insert (n, d) (set al)"
  by (induction al) auto

lemma setNodeData_props:
  assumes "hasNode g n"
  shows "\<exists>g'. setNodeData g n d = Inr g' \<and> outgoingEdges g' = outgoingEdges g
           \<and> incomingEdges g' = incomingEdges g
           \<and> map fst (nodes g') = map fst (nodes g)
           \<and> set (nodes g') \<subseteq> insert (n, d) (set (nodes g))"
proof -
  from assms have k: "n \<in> set (map fst (nodes g))" by (simp add: hasNode_iff)
  then have "map fst (AList.update n d (nodes g)) = map fst (nodes g)"
    by (simp only: update_keys if_True)
  with assms show ?thesis
    by (simp add: setNodeData_def set_update_sub)
qed

declare getMiddlewareName.simps(3) [simp del]

lemma succs_Some: "map_of E n = Some es \<Longrightarrow> succs E n = es"
  by (simp add: succs_def)

lemma set_push_new: "set (push_new x xs) = insert x (set xs)"
  by (auto simp: push_new_def)

lemma addDependency_Inl:
  "(\<exists>e. addDependency g a b = Inl e) \<longleftrightarrow> \<not> (hasNode g a \<and> hasNode g b)"
  by (auto simp: addDependency_def)

lemma addDependency_props:
  assumes wf: "wf_graph g" and ha: "hasNode g a" and hb: "hasNode g b"
  shows "\<exists>g'. addDependency g a b = Inr g' \<and> wf_graph g' \<and> nodes g' = nodes g
           \<and> edge_rel (outgoingEdges g') = insert (a, b) (edge_rel (outgoingEdges g))"
proof -
  let ?g = "g\<lparr>outgoingEdges := AList.map_entry a (push_new b) (outgoingEdges g),
               incomingEdges := AList.map_entry b (push_new a) (incomingEdges g)\<rparr>"
  from wf have w: "map fst (outgoingEdges g) = map fst (nodes g)"
    "map fst (incomingEdges g) = map fst (nodes g)"
    "distinct (map fst (nodes g))"
    "\<forall>n m. m \<in> set (succs (outgoingEdges g) n) \<longrightarrow> m \<in> fst ` set (nodes g)"
    "\<forall>n p. p \<in> set (succs (incomingEdges g) n) \<longrightarrow> n \<in> set (succs (outgoingEdges g) p)"
    by (simp_all add: wf_graph_def)
  from ha wf_graph_keys(1) [OF wf] obtain es where es: "map_of (outgoingEdges g) a = Some es"
    by (metis hasNode_iff domD dom_map_of_conv_image_fst)
  from hb wf_graph_keys(2) [OF wf] obtain ps where ps: "map_of (incomingEdges g) b = Some ps"
    by (metis hasNode_iff domD dom_map_of_conv_image_fst)
  have so: "\<And>n. set (succs (outgoingEdges ?g) n)
              = (if n = a then insert b (set (succs (outgoingEdges g) a))
                 else set (succs (outgoingEdges g) n))"
    using es by (simp add: succs_map_entry set_push_new succs_Some)
  have si: "\<And>n. set (succs (incomingEdges ?g) n)
              = (if n = b then insert a (set (succs (incomingEdges g) b))
                 else set (succs (incomingEdges g) n))"
    using ps by (simp add: succs_map_entry set_push_new succs_Some)
  have "wf_graph ?g"
    unfolding wf_graph_def
  proof (intro conjI)
    show "map fst (outgoingEdges ?g) = map fst (nodes ?g)" using w(1) by (simp add: map_fst_map_entry)
    show "map fst (incomingEdges ?g) = map fst (nodes ?g)" using w(2) by (simp add: map_fst_map_entry)
    show "distinct (map fst (nodes ?g))" using w(3) by simp
    show "\<forall>n m. m \<in> set (succs (outgoingEdges ?g) n) \<longrightarrow> m \<in> fst ` set (nodes ?g)"
    proof (intro allI impI)
      fix n m assume "m \<in> set (succs (outgoingEdges ?g) n)"
      then have "m = b \<or> m \<in> set (succs (outgoingEdges g) n)"
        unfolding so by (auto split: if_splits)
      with w(4) hb show "m \<in> fst ` set (nodes ?g)" by (auto simp: hasNode_iff)
    qed
    show "\<forall>n p. p \<in> set (succs (incomingEdges ?g) n) \<longrightarrow> n \<in> set (succs (outgoingEdges ?g) p)"
    proof (intro allI impI)
      fix n p assume "p \<in> set (succs (incomingEdges ?g) n)"
      then have "(n = b \<and> p = a) \<or> p \<in> set (succs (incomingEdges g) n)"
        unfolding si by (auto split: if_splits)
      then show "n \<in> set (succs (outgoingEdges ?g) p)"
        using w(5) unfolding so by auto
    qed
  qed
  moreover have "edge_rel (outgoingEdges ?g) = insert (a, b) (edge_rel (outgoingEdges g))"
    unfolding edge_rel_def so by (auto split: if_splits)
  ultimately show ?thesis using ha hb by (simp add: addDependency_def)
qed

lemma names_of_Inr_iff:
  "names_of (m # ms) = Inr ns \<longleftrightarrow>
   (\<exists>n ns'. getMiddlewareName (ArgObject m) = Inr n \<and> names_of ms = Inr ns' \<and> ns = n # ns')"
  by (auto split: sum.splits)

lemma addMiddlewareToGraph_props:
  assumes "wf_graph g" and "node_names_ok g" and "names_of ms = Inr ns"
  shows "\<exists>g'. fst (addMiddlewareToGraph s ms g out) = Inr g' \<and> wf_graph g' \<and> node_names_ok g'
           \<and> fst ` set (nodes g') = fst ` set (nodes g) \<union> set ns
           \<and> edge_rel (outgoingEdges g') = edge_rel (outgoingEdges g)"
  using assms
proof (induction ms arbitrary: g out ns)
  case Nil
  then show ?case by simp
next
  case (Cons m ms)
  from Cons.prems(3) obtain n ns' where
    n: "getMiddlewareName (ArgObject m) = Inr n" and ns': "names_of ms = Inr ns'"
    and ns: "ns = n # ns'"
    unfolding names_of_Inr_iff by blast
  show ?case
  proof (cases "hasNode g n")
    case True
    from setNodeData_props [OF True, of m] obtain g1 where
      g1: "setNodeData g n m = Inr g1" "outgoingEdges g1 = outgoingEdges g"
          "incomingEdges g1 = incomingEdges g" "map fst (nodes g1) = map fst (nodes g)"
          "set (nodes g1) \<subseteq> insert (n, m) (set (nodes g))"
      by blast
    from g1(4) have keys: "fst ` set (nodes g1) = fst ` set (nodes g)"
      by (metis set_map)
    have wf1: "wf_graph g1"
      using Cons.prems(1) g1(2,3,4) keys by (simp add: wf_graph_def)
    have ok1: "node_names_ok g1"
      using Cons.prems(2) g1(5) n by (auto simp: node_names_ok_def)
    from Cons.IH [OF wf1 ok1 ns', of "strate_warn s (duplicate_message s m n) out"]
    obtain g' where g': "fst (addMiddlewareToGraph s ms g1
                               (strate_warn s (duplicate_message s m n) out)) = Inr g'"
      "wf_graph g'" "node_names_ok g'"
      "fst ` set (nodes g') = fst ` set (nodes g1) \<union> set ns'"
      "edge_rel (outgoingEdges g') = edge_rel (outgoingEdges g1)"
      by blast
    have "fst (addMiddlewareToGraph s (m # ms) g out) = Inr g'"
      using n True g1(1) g'(1) by (simp add: Let_def)
    moreover have "fst ` set (nodes g') = fst ` set (nodes g) \<union> set ns"
      using g'(4) keys ns True by (auto simp: hasNode_iff)
    ultimately show ?thesis using g'(2,3,5) g1(2) by auto
  next
    case False
    let ?g1 = "addNode g n m"
    have wf1: "wf_graph ?g1" using Cons.prems(1) by (rule wf_graph_addNode)
    have ok1: "node_names_ok ?g1"
      using Cons.prems(2) addNode_nodes [of g n m] n by (auto simp: node_names_ok_def)
    from Cons.IH [OF wf1 ok1 ns', of out]
    obtain g' where g': "fst (addMiddlewareToGraph s ms ?g1 out) = Inr g'"
      "wf_graph g'" "node_names_ok g'"
      "fst ` set (nodes g') = fst ` set (nodes ?g1) \<union> set ns'"
      "edge_rel (outgoingEdges g') = edge_rel (outgoingEdges ?g1)"
      by blast
    have "fst (addMiddlewareToGraph s (m # ms) g out) = Inr g'"
      using n False g'(1) by simp
    moreover have "fst ` set (nodes g') = fst ` set (nodes g) \<union> set ns"
      using g'(4) ns by (auto simp: addNode_keys)
    ultimately show ?thesis using g'(2,3,5) by (auto simp: addNode_edges)
  qed
qed

lemma first_absent_dep_cong:
  "set ks = set ks' \<Longrightarrow> first_absent_dep ks ds = first_absent_dep ks' ds"
  by (induction ds) auto

lemma first_absent_cong:
  "set ks = set ks' \<Longrightarrow> first_absent ks ms = first_absent ks' ms"
  by (induction ms) (auto simp: first_absent_dep_cong [of ks ks'] split: sum.splits option.splits)

lemma first_absent_dep_None:
  "first_absent_dep ks ds = None \<longleftrightarrow> (\<forall>d \<in> set ds. resolve_ref d \<in> set ks)"
  by (induction ds) auto

lemma first_absent_dep_Some:
  "first_absent_dep ks ds = Some b \<Longrightarrow> b \<notin> set ks \<and> (\<exists>d \<in> set ds. resolve_ref d = b)"
  by (induction ds) (auto split: if_splits)

lemma first_absent_None:
  "names_of ms = Inr ns \<Longrightarrow>
   first_absent ks ms = None \<longleftrightarrow>
   (\<forall>inst \<in> set ms. \<forall>d \<in> set (dependencies inst). resolve_ref d \<in> set ks)"
proof (induction ms arbitrary: ns)
  case Nil
  then show ?case by simp
next
  case (Cons m ms)
  from Cons.prems obtain n ns' where
    n: "getMiddlewareName (ArgObject m) = Inr n" and ns': "names_of ms = Inr ns'"
    unfolding names_of_Inr_iff by blast
  show ?case
  proof (cases "first_absent_dep ks (dependencies m)")
    case None
    then have m: "\<forall>d \<in> set (dependencies m). resolve_ref d \<in> set ks"
      by (simp only: first_absent_dep_None)
    have "first_absent ks (m # ms) = first_absent ks ms"
      using n None by simp
    with Cons.IH [OF ns'] m show ?thesis by auto
  next
    case (Some b)
    with first_absent_dep_Some [OF Some] n show ?thesis by auto
  qed
qed

lemma first_absent_Some:
  "first_absent ks ms = Some (a, b) \<Longrightarrow>
   b \<notin> set ks \<and> (\<exists>inst \<in> set ms. getMiddlewareName (ArgObject inst) = Inr a
                    \<and> (\<exists>d \<in> set (dependencies inst). resolve_ref d = b))"
proof (induction ms)
  case Nil
  then show ?case by simp
next
  case (Cons m ms)
  show ?case
  proof (cases "getMiddlewareName (ArgObject m)")
    case (Inl e)
    with Cons show ?thesis by auto
  next
    case (Inr n)
    show ?thesis
    proof (cases "first_absent_dep ks (dependencies m)")
      case None
      with Inr Cons show ?thesis by auto
    next
      case (Some b')
      with Inr Cons.prems have "a = n" "b' = b" by simp_all
      with first_absent_dep_Some [OF Some] Inr show ?thesis by auto
    qed
  qed
qed

lemma add_dependencies_props:
  assumes "wf_graph g" and "hasNode g a"
  shows "(case first_absent_dep (map fst (nodes g)) ds of
            Some b \<Rightarrow> add_dependencies s a ds g = Inl (dep_error (strate_configuration s) a b)
          | None \<Rightarrow> (\<exists>g'. add_dependencies s a ds g = Inr g' \<and> wf_graph g'
                       \<and> nodes g' = nodes g
                       \<and> edge_rel (outgoingEdges g')
                           = edge_rel (outgoingEdges g) \<union> {(a, resolve_ref d) | d. d \<in> set ds}))"
  using assms
proof (induction ds arbitrary: g)
  case Nil
  then show ?case by simp
next
  case (Cons d ds)
  show ?case
  proof (cases "resolve_ref d \<in> set (map fst (nodes g))")
    case False
    then have "\<not> hasNode g (resolve_ref d)" by (simp add: hasNode_iff)
    then obtain e where "addDependency g a (resolve_ref d) = Inl e"
      using addDependency_Inl [of g a "resolve_ref d"] by blast
    with False show ?thesis
      by (simp add: resolve_ref_name dep_error_def)
  next
    case True
    then have hb: "hasNode g (resolve_ref d)" by (simp add: hasNode_iff)
    from addDependency_props [OF Cons.prems(1,2) hb] obtain g1 where
      g1: "addDependency g a (resolve_ref d) = Inr g1" "wf_graph g1" "nodes g1 = nodes g"
          "edge_rel (outgoingEdges g1) = insert (a, resolve_ref d) (edge_rel (outgoingEdges g))"
      by blast
    from Cons.prems(2) g1(3) have ha1: "hasNode g1 a" by (simp add: hasNode_def)
    have step: "add_dependencies s a (d # ds) g = add_dependencies s a ds g1"
      using g1(1) by (simp add: resolve_ref_name)
    from Cons.IH [OF g1(2) ha1] True g1(3,4) show ?thesis
      unfolding step by (auto split: option.splits)
  qed
qed

lemma dep_rel_Cons:
  "getMiddlewareName (ArgObject m) = Inr a \<Longrightarrow>
   dep_rel (m # ms) = {(a, resolve_ref d) | d. d \<in> set (dependencies m)} \<union> dep_rel ms"
  by (auto simp: dep_rel_def)

lemma set_dependencies_props:
  assumes "wf_graph g" and "names_of ms = Inr ns" and "set ns \<subseteq> fst ` set (nodes g)"
  shows "(case first_absent (map fst (nodes g)) ms of
            Some (a, b) \<Rightarrow> set_dependencies s ms g = Inl (dep_error (strate_configuration s) a b)
          | None \<Rightarrow> (\<exists>g'. set_dependencies s ms g = Inr g' \<and> wf_graph g'
                       \<and> nodes g' = nodes g
                       \<and> edge_rel (outgoingEdges g') = edge_rel (outgoingEdges g) \<union> dep_rel ms))"
  using assms
proof (induction ms arbitrary: g ns)
  case Nil
  then show ?case by (simp add: dep_rel_def)
next
  case (Cons m ms)
  from Cons.prems(2) obtain a ns' where
    a: "getMiddlewareName (ArgObject m) = Inr a" and ns': "names_of ms = Inr ns'"
    and ns: "ns = a # ns'"
    unfolding names_of_Inr_iff by blast
  from Cons.prems(3) ns have ha: "hasNode g a" and sub: "set ns' \<subseteq> fst ` set (nodes g)"
    by (simp_all add: hasNode_iff)
  note ad = add_dependencies_props [OF Cons.prems(1) ha, where ds = "dependencies m" and s = s]
  show ?case
  proof (cases "first_absent_dep (map fst (nodes g)) (dependencies m)")
    case (Some b)
    with ad a show ?thesis by simp
  next
    case None
    with ad obtain g1 where
      g1: "add_dependencies s a (dependencies m) g = Inr g1" "wf_graph g1" "nodes g1 = nodes g"
          "edge_rel (outgoingEdges g1)
             = edge_rel (outgoingEdges g) \<union> {(a, resolve_ref d) | d. d \<in> set (dependencies m)}"
      by auto
    have step: "set_dependencies s (m # ms) g = set_dependencies s ms g1"
      using a g1(1) by simp
    have fa: "first_absent (map fst (nodes g)) (m # ms) = first_absent (map fst (nodes g1)) ms"
      using a None g1(3) by simp
    from sub g1(3) have sub1: "set ns' \<subseteq> fst ` set (nodes g1)" by simp
    from Cons.IH [OF g1(2) ns' sub1] show ?thesis
      unfolding step fa dep_rel_Cons [OF a] using g1(3,4)
      by (auto split: option.splits)
  qed
qed

lemma addMiddlewareToGraph_Inl:
  "names_of ms = Inl e \<Longrightarrow> fst (addMiddlewareToGraph s ms g out) = Inl e"
proof (induction ms arbitrary: g out)
  case Nil
  then show ?case by simp
next
  case (Cons m ms)
  show ?case
  proof (cases "getMiddlewareName (ArgObject m)")
    case (Inl e')
    with Cons.prems show ?thesis by simp
  next
    case (Inr n)
    with Cons.prems have rest: "names_of ms = Inl e" by (simp split: sum.splits)
    show ?thesis
    proof (cases "hasNode g n")
      case True
      from setNodeData_props [OF True, of m] obtain g1 where "setNodeData g n m = Inr g1"
        by blast
      with Inr True Cons.IH [OF rest] show ?thesis by (simp add: Let_def)
    next
      case False
      with Inr Cons.IH [OF rest] show ?thesis by simp
    qed
  qed
qed

lemma resolveMiddleware_props:
  assumes ms: "middleware (strate_configuration s) = Some ms" and ns: "names_of ms = Inr ns"
  shows "(case first_absent ns ms of
            Some (a, b) \<Rightarrow>
              fst (resolveMiddleware s out) = Inl (dep_error (strate_configuration s) a b)
          | None \<Rightarrow>
              (\<exists>g. wf_graph g \<and> node_names_ok g \<and> fst ` set (nodes g) = set ns
                 \<and> edge_rel (outgoingEdges g) = dep_rel ms
                 \<and> fst (resolveMiddleware s out)
                     = (case overallOrder g of Inl e \<Rightarrow> Inl e | Inr order \<Rightarrow> Inr (g, order))))"
proof -
  have nn: "node_names_ok (new_DepGraph :: 'a Middleware DepGraph)"
    by (simp add: node_names_ok_def new_DepGraph_def)
  from addMiddlewareToGraph_props [OF wf_graph_new nn ns, of s out] obtain g0 where
    g0: "fst (addMiddlewareToGraph s ms new_DepGraph out) = Inr g0" "wf_graph g0"
        "node_names_ok g0" "fst ` set (nodes g0) = set ns"
        "edge_rel (outgoingEdges g0) = {}"
    by (auto simp: new_DepGraph_def edge_rel_def succs_def)
  obtain out' where am: "addMiddlewareToGraph s ms new_DepGraph out = (Inr g0, out')"
    using g0(1) by (cases "addMiddlewareToGraph s ms new_DepGraph out") auto
  have r: "fst (resolveMiddleware s out)
           = (case set_dependencies s ms g0 of
                Inl e \<Rightarrow> Inl e
              | Inr g \<Rightarrow> (case overallOrder g of Inl e \<Rightarrow> Inl e | Inr order \<Rightarrow> Inr (g, order)))"
    using ms am by (simp add: resolveMiddleware_def split: sum.splits)
  have keys: "set (map fst (nodes g0)) = set ns" using g0(4) by simp
  have fa: "first_absent (map fst (nodes g0)) ms = first_absent ns ms"
    using keys by (rule first_absent_cong)
  from g0(4) have sub: "set ns \<subseteq> fst ` set (nodes g0)" by simp
  note sd = set_dependencies_props [OF g0(2) ns sub, where s = s, unfolded fa]
  show ?thesis
  proof (cases "first_absent ns ms")
    case (Some ab)
    with sd r show ?thesis by (auto split: prod.splits)
  next
    case None
    with sd obtain g where
      g: "set_dependencies s ms g0 = Inr g" "wf_graph g" "nodes g = nodes g0"
         "edge_rel (outgoingEdges g) = edge_rel (outgoingEdges g0) \<union> dep_rel ms"
      by auto
    have "node_names_ok g" using g0(3) g(3) by (simp add: node_names_ok_def)
    moreover have "fst ` set (nodes g) = set ns" using g(3) g0(4) by simp
    moreover have "edge_rel (outgoingEdges g) = dep_rel ms" using g(4) g0(5) by simp
    moreover have "fst (resolveMiddleware s out)
                     = (case overallOrder g of Inl e \<Rightarrow> Inl e | Inr order \<Rightarrow> Inr (g, order))"
      using r g(1) by simp
    ultimately have "\<exists>g. wf_graph g \<and> node_names_ok g \<and> fst ` set (nodes g) = set ns
                 \<and> edge_rel (outgoingEdges g) = dep_rel ms
                 \<and> fst (resolveMiddleware s out)
                     = (case overallOrder g of Inl e \<Rightarrow> Inl e | Inr order \<Rightarrow> Inr (g, order))"
      using g(2) by blast
    with None show ?thesis by simp
  qed
qed

lemma resolveMiddleware_Inr_names:
  assumes "fst (resolveMiddleware s out) = Inr (g, order)"
  shows "\<exists>ms ns. middleware (strate_configuration s) = Some ms \<and> names_of ms = Inr ns"
proof (cases "middleware (strate_configuration s)")
  case None
  with assms show ?thesis
    by (simp add: resolveMiddleware_def split: prod.splits sum.splits)
next
  case (Some ms)
  show ?thesis
  proof (cases "names_of ms")
    case (Inl e)
    from addMiddlewareToGraph_Inl [OF Inl, of s new_DepGraph out] assms Some show ?thesis
      by (simp add: resolveMiddleware_def split: prod.splits sum.splits)
  next
    case (Inr ns)
    with Some show ?thesis by simp
  qed
qed

lemma topo_distinct: "topo E res \<Longrightarrow> distinct res"
  by (induction res rule: rev_induct) (auto simp: topo_snoc)

lemma chain_reaches:
  "chain E (x # path) \<Longrightarrow> y \<in> set path \<Longrightarrow> (y, x) \<in> (edge_rel E)\<^sup>+"
proof (induction path arbitrary: x)
  case Nil
  then show ?case by simp
next
  case (Cons z zs)
  from Cons.prems(1) have e: "(z, x) \<in> edge_rel E" and c: "chain E (z # zs)"
    by (simp_all add: edge_rel_def)
  show ?case
  proof (cases "y = z")
    case True
    with e show ?thesis by auto
  next
    case False
    with Cons.prems(2) have "y \<in> set zs" by simp
    from Cons.IH [OF c this] e show ?thesis by (meson trancl.trancl_into_trancl)
  qed
qed

lemma DFS_cycle_real:
  "chain E (node # path) \<longrightarrow>
     (\<forall>p. DFS E path node res = Inl (DependencyCycle p) \<longrightarrow> (\<exists>n. (n, n) \<in> (edge_rel E)\<^sup>+))"
  "(\<forall>n \<in> set ns. chain E (n # path)) \<longrightarrow>
     (\<forall>p. DFS_all E path ns res = Inl (DependencyCycle p) \<longrightarrow> (\<exists>n. (n, n) \<in> (edge_rel E)\<^sup>+))"
proof (induction E path node res and E path ns res rule: DFS_DFS_all.induct)
  case (1 edges currentPath node result)
  show ?case
  proof (intro impI allI)
    fix p
    assume ch: "chain edges (node # currentPath)"
      and r: "DFS edges currentPath node result = Inl (DependencyCycle p)"
    from r have nr: "node \<notin> set result" by (auto split: if_splits)
    show "\<exists>n. (n, n) \<in> (edge_rel edges)\<^sup>+"
    proof (cases "node \<in> set currentPath")
      case True
      from chain_reaches [OF ch True] show ?thesis by blast
    next
      case False
      from r nr False obtain es where es: "map_of edges node = Some es"
        by (cases "map_of edges node") simp_all
      from r nr False es have
        r1: "DFS_all edges (node # currentPath) es result = Inl (DependencyCycle p)"
        by (auto split: sum.splits)
      have "\<forall>n \<in> set es. chain edges (n # node # currentPath)"
        using ch es by (simp add: succs_Some)
      with "1.IH" [OF nr False es] r1 show ?thesis by blast
    qed
  qed
next
  case (2 edges currentPath result)
  show ?case by simp
next
  case (3 edges currentPath n ns result)
  show ?case
  proof (intro impI allI)
    fix p
    assume ch: "\<forall>x \<in> set (n # ns). chain edges (x # currentPath)"
      and r: "DFS_all edges currentPath (n # ns) result = Inl (DependencyCycle p)"
    show "\<exists>n. (n, n) \<in> (edge_rel edges)\<^sup>+"
    proof (cases "DFS edges currentPath n result")
      case (Inl e)
      with r have "e = DependencyCycle p" by simp
      with "3.IH"(1) ch Inl show ?thesis by auto
    next
      case (Inr r1)
      with r have "DFS_all edges currentPath ns r1 = Inl (DependencyCycle p)" by simp
      with "3.IH"(2) [OF Inr] ch show ?thesis by auto
    qed
  qed
qed

lemma overallOrder_acyclic:
  assumes wf: "wf_graph g" and ac: "\<forall>n. (n, n) \<notin> (edge_rel (outgoingEdges g))\<^sup>+"
  shows "\<exists>order. overallOrder g = Inr order"
proof (cases "nodes g = []")
  case True
  then show ?thesis by (simp add: overallOrder_def)
next
  case False
  let ?E = "outgoingEdges g"
  let ?keys = "map fst (nodes g)"
  let ?roots = "filter (\<lambda>node. map_of (incomingEdges g) node = Some []) ?keys"
  have sub: "set ?keys \<subseteq> fst ` set ?E" "set ?roots \<subseteq> fst ` set ?E"
    using wf_graph_keys(1) [OF wf] by auto
  have no: "\<And>starts e. set starts \<subseteq> fst ` set ?E \<Longrightarrow> DFS_all ?E [] starts [] \<noteq> Inl e"
  proof
    fix starts e
    assume s: "set starts \<subseteq> fst ` set ?E" and r: "DFS_all ?E [] starts [] = Inl e"
    from DFS_error_kind(2) [OF wf_graph_closed [OF wf], of starts "[]" "[]"] s r
    obtain p where "e = DependencyCycle p" by blast
    with DFS_cycle_real(2) [where ns = starts and path = "[]" and E = ?E and res = "[]"] r ac
    show False by auto
  qed
  from no [OF sub(1)] obtain rc where rc: "DFS_all ?E [] ?keys [] = Inr rc"
    by (cases "DFS_all ?E [] ?keys []") auto
  from no [OF sub(2)] obtain rr where rr: "DFS_all ?E [] ?roots [] = Inr rr"
    by (cases "DFS_all ?E [] ?roots []") auto
  from False rc rr show ?thesis by (simp add: overallOrder_def)
qed

lemma names_of_set:
  "names_of ms = Inr ns \<Longrightarrow>
   set ns = {n. \<exists>m \<in> set ms. getMiddlewareName (ArgObject m) = Inr n}"
proof (induction ms arbitrary: ns)
  case Nil
  then show ?case by simp
next
  case (Cons m ms)
  from Cons.prems obtain n ns' where
    n: "getMiddlewareName (ArgObject m) = Inr n" and ns': "names_of ms = Inr ns'"
    and ns: "ns = n # ns'"
    unfolding names_of_Inr_iff by blast
  from Cons.IH [OF ns'] n ns show ?case by auto
qed

lemma resolveMiddleware_returns:
  assumes ms: "middleware (strate_configuration s) = Some ms"
    and ns: "names_of ms = Inr ns"
    and present: "first_absent ns ms = None"
    and acyclic: "\<forall>n. (n, n) \<notin> (dep_rel ms)\<^sup>+"
  shows "\<exists>g order. fst (resolveMiddleware s out) = Inr (g, order) \<and> wf_graph g
           \<and> node_names_ok g \<and> fst ` set (nodes g) = set ns
           \<and> edge_rel (outgoingEdges g) = dep_rel ms \<and> overallOrder g = Inr order"
proof -
  from resolveMiddleware_props [OF ms ns, of out] present obtain g where
    g: "wf_graph g" "node_names_ok g" "fst ` set (nodes g) = set ns"
       "edge_rel (outgoingEdges g) = dep_rel ms"
       "fst (resolveMiddleware s out)
          = (case overallOrder g of Inl e \<Rightarrow> Inl e | Inr order \<Rightarrow> Inr (g, order))"
    by auto
  from overallOrder_acyclic [OF g(1)] acyclic g(4) obtain order where
    "overallOrder g = Inr order" by auto
  with g show ?thesis by auto
qed

lemma resolveMiddleware_returned:
  assumes r: "fst (resolveMiddleware s out) = Inr (g, order)"
  shows "\<exists>ms ns. middleware (strate_configuration s) = Some ms \<and> names_of ms = Inr ns
           \<and> first_absent ns ms = None \<and> wf_graph g \<and> node_names_ok g
           \<and> fst ` set (nodes g) = set ns \<and> edge_rel (outgoingEdges g) = dep_rel ms
           \<and> overallOrder g = Inr order"
proof -
  from resolveMiddleware_Inr_names [OF r] obtain ms ns where
    ms: "middleware (strate_configuration s) = Some ms" and ns: "names_of ms = Inr ns"
    by blast
  note p = resolveMiddleware_props [OF ms ns, of out]
  show ?thesis
  proof (cases "first_absent ns ms")
    case (Some ab)
    with p r show ?thesis by (auto split: prod.splits)
  next
    case None
    with p obtain g' where
      g: "wf_graph g'" "node_names_ok g'" "fst ` set (nodes g') = set ns"
         "edge_rel (outgoingEdges g') = dep_rel ms"
         "fst (resolveMiddleware s out)
            = (case overallOrder g' of Inl e \<Rightarrow> Inl e | Inr order \<Rightarrow> Inr (g', order))"
      by auto
    from g(5) r have "g' = g" "overallOrder g = Inr order"
      by (auto split: sum.splits)
    with g ms ns None show ?thesis by auto
  qed
qed

lemma order_respects_edges:
  assumes wf: "wf_graph g" and o: "overallOrder g = Inr order"
    and e: "(a, b) \<in> edge_rel (outgoingEdges g)"
  shows "\<exists>i j. i < j \<and> j < length order \<and> order ! i = b \<and> order ! j = a"
proof -
  from overallOrder_sound [OF wf o] have t: "topo (outgoingEdges g) order"
    and k: "set order = fst ` set (nodes g)" by simp_all
  from e have s: "b \<in> set (succs (outgoingEdges g) a)" by (simp add: edge_rel_def)
  then have "a \<in> fst ` set (outgoingEdges g)" by (rule succs_key)
  with k wf_graph_keys(1) [OF wf] have a: "a \<in> set order" by simp
  from topo_edge [OF t a s] have b: "b \<in> set order" "pos order b < pos order a" by simp_all
  from pos_less [OF a] pos_less [OF b(1)] b(2) show ?thesis by blast
qed

section \<open>Properties of the resolver\<close>

text \<open>
  C1. Let the configuration hold the instances \<open>ms\<close>. Whenever \<^verbatim>\<open>resolveMiddleware\<close>
  returns an order, the order lists each name of an instance of \<open>ms\<close>, once, and whenever
  an instance named \<open>a\<close> declares a dependency that resolves to \<open>b\<close>, \<open>b\<close> stands
  in the order at an index strictly below that of \<open>a\<close>. And an order is returned for
  every list without a cycle in its declared dependencies, provided every \<^verbatim>\<open>id()\<close>
  is synchronous and every declared dependency is the name of an instance of the list.
\<close>

theorem resolveMiddleware_order:
  assumes ms: "middleware (strate_configuration s) = Some ms"
  shows "(\<forall>g order. fst (resolveMiddleware s out) = Inr (g, order) \<longrightarrow>
            distinct order
          \<and> (\<forall>n. n \<in> set order \<longleftrightarrow> (\<exists>m \<in> set ms. getMiddlewareName (ArgObject m) = Inr n))
          \<and> (\<forall>a b. (a, b) \<in> dep_rel ms \<longrightarrow>
                (\<exists>i j. i < j \<and> j < length order \<and> order ! i = b \<and> order ! j = a)))
       \<and> (\<forall>ns. names_of ms = Inr ns \<and> first_absent ns ms = None
                \<and> (\<forall>n. (n, n) \<notin> (dep_rel ms)\<^sup>+) \<longrightarrow>
             (\<exists>g order. fst (resolveMiddleware s out) = Inr (g, order)))"
proof -
  have 1: "\<forall>g order. fst (resolveMiddleware s out) = Inr (g, order) \<longrightarrow>
            distinct order
          \<and> (\<forall>n. n \<in> set order \<longleftrightarrow> (\<exists>m \<in> set ms. getMiddlewareName (ArgObject m) = Inr n))
          \<and> (\<forall>a b. (a, b) \<in> dep_rel ms \<longrightarrow>
                (\<exists>i j. i < j \<and> j < length order \<and> order ! i = b \<and> order ! j = a))"
  proof (intro allI impI)
    fix g order
    assume "fst (resolveMiddleware s out) = Inr (g, order)"
    from resolveMiddleware_returned [OF this] ms obtain ns where
      g: "names_of ms = Inr ns" "wf_graph g" "fst ` set (nodes g) = set ns"
         "edge_rel (outgoingEdges g) = dep_rel ms" "overallOrder g = Inr order"
      by auto
    from overallOrder_sound [OF g(2,5)] have t: "topo (outgoingEdges g) order"
      and k: "set order = set ns" using g(3) by simp_all
    have "distinct order" using t by (rule topo_distinct)
    moreover have "\<forall>n. n \<in> set order \<longleftrightarrow> (\<exists>m \<in> set ms. getMiddlewareName (ArgObject m) = Inr n)"
      using k names_of_set [OF g(1)] by simp
    moreover have "\<forall>a b. (a, b) \<in> dep_rel ms \<longrightarrow>
                (\<exists>i j. i < j \<and> j < length order \<and> order ! i = b \<and> order ! j = a)"
      using order_respects_edges [OF g(2,5)] g(4) by simp
    ultimately show "distinct order
          \<and> (\<forall>n. n \<in> set order \<longleftrightarrow> (\<exists>m \<in> set ms. getMiddlewareName (ArgObject m) = Inr n))
          \<and> (\<forall>a b. (a, b) \<in> dep_rel ms \<longrightarrow>
                (\<exists>i j. i < j \<and> j < length order \<and> order ! i = b \<and> order ! j = a))"
      by blast
  qed
  have 2: "\<forall>ns. names_of ms = Inr ns \<and> first_absent ns ms = None
                \<and> (\<forall>n. (n, n) \<notin> (dep_rel ms)\<^sup>+) \<longrightarrow>
             (\<exists>g order. fst (resolveMiddleware s out) = Inr (g, order))"
  proof (intro allI impI)
    fix ns
    assume a: "names_of ms = Inr ns \<and> first_absent ns ms = None
                \<and> (\<forall>n. (n, n) \<notin> (dep_rel ms)\<^sup>+)"
    then have "names_of ms = Inr ns" "first_absent ns ms = None"
      "\<forall>n. (n, n) \<notin> (dep_rel ms)\<^sup>+" by simp_all
    from resolveMiddleware_returns [OF ms this, of out]
    show "\<exists>g order. fst (resolveMiddleware s out) = Inr (g, order)" by blast
  qed
  from 1 2 show ?thesis by blast
qed

lemma ranked_acyclic:
  fixes f :: "string \<Rightarrow> nat"
  assumes "\<forall>a b. (a, b) \<in> R \<longrightarrow> f b < f a"
  shows "(n, n) \<notin> R\<^sup>+"
proof -
  have "f b < f a" if "(a, b) \<in> R\<^sup>+" for a b
    using that
  proof (induction rule: trancl_induct)
    case (base y)
    with assms show ?case by simp
  next
    case (step y z)
    with assms have "f z < f y" by simp
    with step.IH show ?case by simp
  qed
  then show ?thesis by (meson less_irrefl)
qed

lemma example_names:
  "names_of [app_middleware ''B'' [RefClass \<lparr>cls_name = ''A'', cls_namespace = Some ''App''\<rparr>] (),
             app_middleware ''A'' [] ()] = Inr [''App.B'', ''App.A'']"
  by (simp add: app_middleware_def getMiddlewareName.simps)

lemma example_dep_rel:
  "dep_rel [app_middleware ''B'' [RefClass \<lparr>cls_name = ''A'', cls_namespace = Some ''App''\<rparr>] (),
            app_middleware ''A'' [] ()] = {(''App.B'', ''App.A'')}"
  by (auto simp: dep_rel_def app_middleware_def getMiddlewareName.simps)

theorem resolveMiddleware_order_witness:
  "fst (resolveMiddleware
     (strate_of \<lparr>debug = None,
                 middleware = Some [app_middleware ''B''
                                      [RefClass \<lparr>cls_name = ''A'', cls_namespace = Some ''App''\<rparr>] (),
                                    app_middleware ''A'' [] ()],
                 skip = None\<rparr>) [])
   = Inr (\<lparr>nodes = [(''App.B'', app_middleware ''B''
                         [RefClass \<lparr>cls_name = ''A'', cls_namespace = Some ''App''\<rparr>] ()),
                   (''App.A'', app_middleware ''A'' [] ())],
           outgoingEdges = [(''App.B'', [''App.A'']), (''App.A'', [])],
           incomingEdges = [(''App.B'', []), (''App.A'', [''App.B''])]\<rparr>,
          [''App.A'', ''App.B''])
   \<and> (\<exists>i j. i < j \<and> j < length [''App.A'', ''App.B''] \<and> [''App.A'', ''App.B''] ! i = ''App.A''
          \<and> [''App.A'', ''App.B''] ! j = ''App.B'')"
proof -
  let ?ms = "[app_middleware ''B'' [RefClass \<lparr>cls_name = ''A'', cls_namespace = Some ''App''\<rparr>] (),
              app_middleware ''A'' [] ()]"
  let ?s = "strate_of \<lparr>debug = None, middleware = Some ?ms, skip = None\<rparr>"
  let ?g = "\<lparr>nodes = [(''App.B'', app_middleware ''B''
                         [RefClass \<lparr>cls_name = ''A'', cls_namespace = Some ''App''\<rparr>] ()),
                   (''App.A'', app_middleware ''A'' [] ())],
           outgoingEdges = [(''App.B'', [''App.A'']), (''App.A'', [])],
           incomingEdges = [(''App.B'', []), (''App.A'', [''App.B''])]\<rparr>"
  have 1: "middleware (strate_configuration ?s) = Some ?ms" by (simp add: strate_of_def)
  have 3: "first_absent [''App.B'', ''App.A''] ?ms = None"
    by (simp add: app_middleware_def getMiddlewareName.simps)
  have 4: "\<forall>n. (n, n) \<notin> (dep_rel ?ms)\<^sup>+"
    unfolding example_dep_rel
    by (intro allI ranked_acyclic [where f = "\<lambda>n. if n = ''App.B'' then 1 else 0"]) simp
  note t = resolveMiddleware_order [OF 1, of "[]"]
  from t example_names 3 4 obtain g order where
    r: "fst (resolveMiddleware ?s []) = Inr (g, order)" by blast
  have e: "fst (resolveMiddleware ?s []) = Inr (?g, [''App.A'', ''App.B''])"
    by (simp add: resolveMiddleware_def strate_of_def app_middleware_def
          getMiddlewareName.simps new_DepGraph_def hasNode_def addNode_def addDependency_def
          push_new_def overallOrder_def)
  have "(''App.B'', ''App.A'') \<in> dep_rel ?ms" unfolding example_dep_rel by simp
  with t e have "\<exists>i j. i < j \<and> j < length [''App.A'', ''App.B''] \<and> [''App.A'', ''App.B''] ! i = ''App.A''
          \<and> [''App.A'', ''App.B''] ! j = ''App.B''"
    by blast
  with e show ?thesis by blast
qed

lemma remove_skipped_names:
  "remove_skipped rs ms = Inr kept \<Longrightarrow> \<exists>ns. names_of kept = Inr ns"
proof (induction ms arbitrary: kept)
  case Nil
  then show ?case by simp
next
  case (Cons m ms)
  from Cons.prems obtain n kept' where
    n: "getMiddlewareName (ArgObject m) = Inr n" and k: "remove_skipped rs ms = Inr kept'"
    and kept: "kept = (if n \<in> set rs then kept' else m # kept')"
    by (auto split: sum.splits)
  from Cons.IH [OF k] obtain ns where "names_of kept' = Inr ns" by blast
  with n kept show ?case by auto
qed

lemma loadConfiguration_Inr:
  assumes "loadConfiguration base route = Inr c"
  shows "\<exists>kept ns. middleware c = Some kept \<and> names_of kept = Inr ns
           \<and> skip c = Some (map RefString (map resolve_ref (or_default [] (skip route))))"
proof -
  from assms obtain kept where
    k: "remove_skipped (map resolve_ref (or_default [] (skip route)))
          (or_default [] (middleware base) @ or_default [] (middleware route)) = Inr kept"
    and c: "c = Object_assign (Object_assign (base_rest base) (route_rest route))
                  \<lparr>debug = None, middleware = Some kept,
                   skip = Some (map RefString (map resolve_ref (or_default [] (skip route))))\<rparr>"
    by (auto simp: loadConfiguration_def Let_def split: sum.splits)
  from remove_skipped_names [OF k] obtain ns where "names_of kept = Inr ns" by blast
  with c show ?thesis by (simp add: Object_assign_def)
qed

lemma skip_includes_resolved:
  "skip c = Some (map RefString rs) \<Longrightarrow> skip_includes c b \<longleftrightarrow> b \<in> set rs"
  by (auto simp: skip_includes_def)

text \<open>
  C6, as stated, fails when two dependencies are absent. \<^verbatim>\<open>App.Report\<close> is retained
  and declares the dependency \<^verbatim>\<open>App.Mailer\<close>, which is the name of no instance and is
  not in the skip list: the claim promises the missing-middleware error for this pair.
  \<^verbatim>\<open>App.Audit\<close>, earlier in the configuration, depends on the skipped
  \<^verbatim>\<open>App.Auth\<close>, and the error thrown is the one of that pair.
\<close>

theorem resolveMiddleware_first_absent_wins:
  "names_of [app_middleware ''Audit'' [RefString ''App.Auth''] (),
             app_middleware ''Report'' [RefString ''App.Mailer''] ()]
     = Inr [''App.Audit'', ''App.Report'']
   \<and> dependencies (app_middleware ''Report'' [RefString ''App.Mailer''] ())
     = [RefString ''App.Mailer'']
   \<and> \<not> skip_includes
         \<lparr>debug = None,
          middleware = Some [app_middleware ''Audit'' [RefString ''App.Auth''] (),
                             app_middleware ''Report'' [RefString ''App.Mailer''] ()],
          skip = Some [RefString ''App.Auth'']\<rparr> ''App.Mailer''
   \<and> fst (resolveMiddleware
       (strate_of \<lparr>debug = None,
          middleware = Some [app_middleware ''Audit'' [RefString ''App.Auth''] (),
                             app_middleware ''Report'' [RefString ''App.Mailer''] ()],
          skip = Some [RefString ''App.Auth'']\<rparr>) [])
     = Inl (SkippedDependency ''App.Audit'' ''App.Auth'')"
  by (simp add: resolveMiddleware_def strate_of_def app_middleware_def
        getMiddlewareName.simps new_DepGraph_def hasNode_def addNode_def addDependency_def
        skip_includes_def)

text \<open>
  C6, amended. Let the configuration be one \<^verbatim>\<open>loadConfiguration\<close> returned, with the
  retained instances \<open>ms\<close>, and let some instance of \<open>ms\<close> declare a dependency that
  no instance of \<open>ms\<close> is named after. Then \<^verbatim>\<open>resolveMiddleware\<close> returns no order:
  it throws. The error names a dependent \<open>a\<close> and a dependency \<open>b\<close> that \<open>a\<close> declares
  and that no instance is named after, the first such pair in the order of the
  configuration; it is the depends-on-a-skipped-middleware error when \<open>b\<close> is in the
  resolved skip list and the missing-middleware error otherwise.
\<close>

theorem resolveMiddleware_absent_dependency:
  assumes cfg: "loadConfiguration base route = Inr (strate_configuration s)"
    and ms: "middleware (strate_configuration s) = Some ms"
    and inst: "inst \<in> set ms"
    and d: "d \<in> set (dependencies inst)"
    and absent: "\<forall>m \<in> set ms. getMiddlewareName (ArgObject m) \<noteq> Inr (resolve_ref d)"
  shows "\<exists>a b ns. fst (resolveMiddleware s out)
                  = Inl (if b \<in> set (map resolve_ref (or_default [] (skip route)))
                         then SkippedDependency a b else MissingDependency a b)
           \<and> (a, b) \<in> dep_rel ms
           \<and> (\<forall>m \<in> set ms. getMiddlewareName (ArgObject m) \<noteq> Inr b)
           \<and> names_of ms = Inr ns \<and> first_absent ns ms = Some (a, b)"
proof -
  from loadConfiguration_Inr [OF cfg] ms obtain ns where
    ns: "names_of ms = Inr ns"
    and sk: "skip (strate_configuration s)
               = Some (map RefString (map resolve_ref (or_default [] (skip route))))"
    by auto
  from absent names_of_set [OF ns] have "resolve_ref d \<notin> set ns" by auto
  with inst d first_absent_None [OF ns, of ns] have "first_absent ns ms \<noteq> None" by blast
  then obtain a b where fa: "first_absent ns ms = Some (a, b)" by auto
  from resolveMiddleware_props [OF ms ns, of out] fa have
    "fst (resolveMiddleware s out) = Inl (dep_error (strate_configuration s) a b)" by simp
  then have 1: "fst (resolveMiddleware s out)
                  = Inl (if b \<in> set (map resolve_ref (or_default [] (skip route)))
                         then SkippedDependency a b else MissingDependency a b)"
    by (simp add: dep_error_def skip_includes_resolved [OF sk])
  from first_absent_Some [OF fa] have 2: "(a, b) \<in> dep_rel ms" and nb: "b \<notin> set ns"
    by (auto simp: dep_rel_def)
  from nb names_of_set [OF ns] have 3: "\<forall>m \<in> set ms. getMiddlewareName (ArgObject m) \<noteq> Inr b"
    by auto
  from 1 2 3 ns fa show ?thesis by blast
qed

lemma example_skip_load:
  "loadConfiguration
     \<lparr>debug = None,
      middleware = Some [app_middleware ''Auth'' [] (),
                         app_middleware ''Audit'' [RefString ''App.Auth''] ()],
      skip = None\<rparr>
     \<lparr>debug = None,
      middleware = Some [app_middleware ''Report'' [RefString ''App.Mailer''] ()],
      skip = Some [RefClass \<lparr>cls_name = ''Auth'', cls_namespace = Some ''App''\<rparr>]\<rparr>
   = Inr \<lparr>debug = None,
          middleware = Some [app_middleware ''Audit'' [RefString ''App.Auth''] (),
                             app_middleware ''Report'' [RefString ''App.Mailer''] ()],
          skip = Some [RefString ''App.Auth'']\<rparr>"
  by (simp add: loadConfiguration_def app_middleware_def getMiddlewareName.simps
        Object_assign_def base_rest_def route_rest_def)

theorem resolveMiddleware_absent_dependency_witness:
  "fst (resolveMiddleware
     (strate_of \<lparr>debug = None,
          middleware = Some [app_middleware ''Audit'' [RefString ''App.Auth''] (),
                             app_middleware ''Report'' [RefString ''App.Mailer''] ()],
          skip = Some [RefString ''App.Auth'']\<rparr>) [])
   = Inl (SkippedDependency ''App.Audit'' ''App.Auth'')"
proof -
  let ?ms = "[app_middleware ''Audit'' [RefString ''App.Auth''] (),
              app_middleware ''Report'' [RefString ''App.Mailer''] ()]"
  let ?c = "\<lparr>debug = None, middleware = Some ?ms, skip = Some [RefString ''App.Auth'']\<rparr>"
  have cfg: "loadConfiguration
     \<lparr>debug = None,
      middleware = Some [app_middleware ''Auth'' [] (),
                         app_middleware ''Audit'' [RefString ''App.Auth''] ()],
      skip = None\<rparr>
     \<lparr>debug = None,
      middleware = Some [app_middleware ''Report'' [RefString ''App.Mailer''] ()],
      skip = Some [RefClass \<lparr>cls_name = ''Auth'', cls_namespace = Some ''App''\<rparr>]\<rparr>
     = Inr (strate_configuration (strate_of ?c))"
    using example_skip_load by (simp add: strate_of_def)
  have ms: "middleware (strate_configuration (strate_of ?c)) = Some ?ms"
    by (simp add: strate_of_def)
  have inst: "app_middleware ''Report'' [RefString ''App.Mailer''] () \<in> set ?ms" by simp
  have d: "RefString ''App.Mailer''
             \<in> set (dependencies (app_middleware ''Report'' [RefString ''App.Mailer''] ()))"
    by (simp add: app_middleware_def)
  have absent: "\<forall>m \<in> set ?ms. getMiddlewareName (ArgObject m) \<noteq> Inr (resolve_ref (RefString ''App.Mailer''))"
    by (simp add: app_middleware_def getMiddlewareName.simps)
  from resolveMiddleware_absent_dependency [OF cfg ms inst d absent, of "[]"]
  obtain a b ns where
    r: "fst (resolveMiddleware (strate_of ?c) [])
          = Inl (if b \<in> set (map resolve_ref (or_default []
                       (skip \<lparr>debug = None,
      middleware = Some [app_middleware ''Report'' [RefString ''App.Mailer''] ()],
      skip = Some [RefClass \<lparr>cls_name = ''Auth'', cls_namespace = Some ''App''\<rparr>]\<rparr>)))
                 then SkippedDependency a b else MissingDependency a b)"
    and n: "names_of ?ms = Inr ns" and fa: "first_absent ns ?ms = Some (a, b)"
    by blast
  from n have "ns = [''App.Audit'', ''App.Report'']"
    by (simp add: app_middleware_def getMiddlewareName.simps)
  with fa have "a = ''App.Audit''" "b = ''App.Auth''"
    by (simp_all add: app_middleware_def getMiddlewareName.simps)
  with r show ?thesis by simp
qed

lemma resolveMiddleware_names_Inl:
  assumes "names_of (or_default [] (middleware (strate_configuration s))) = Inl e"
  shows "fst (resolveMiddleware s out) = Inl e"
proof -
  from addMiddlewareToGraph_Inl [OF assms, of s new_DepGraph out] obtain out' where
    "addMiddlewareToGraph s (or_default [] (middleware (strate_configuration s)))
       new_DepGraph out = (Inl e, out')"
    by (cases "addMiddlewareToGraph s (or_default [] (middleware (strate_configuration s)))
                 new_DepGraph out") auto
  then show ?thesis by (simp add: resolveMiddleware_def)
qed

lemma example_cycle_dep_rel:
  "(''App.A'', ''App.A'')
     \<in> (dep_rel [app_middleware ''A'' [RefString ''App.B'', RefString ''App.X''] (),
                  app_middleware ''B'' [RefString ''App.A''] ()])\<^sup>+"
proof -
  let ?R = "dep_rel [app_middleware ''A'' [RefString ''App.B'', RefString ''App.X''] (),
                     app_middleware ''B'' [RefString ''App.A''] ()]"
  have "(''App.A'', ''App.B'') \<in> ?R" "(''App.B'', ''App.A'') \<in> ?R"
    by (simp_all add: dep_rel_def app_middleware_def getMiddlewareName.simps)
  then show ?thesis by (meson trancl.r_into_trancl trancl.trancl_into_trancl)
qed

text \<open>
  C7, as stated, fails. \<^verbatim>\<open>App.A\<close> depends on \<^verbatim>\<open>App.B\<close> and \<^verbatim>\<open>App.X\<close>, and
  \<^verbatim>\<open>App.B\<close> on \<^verbatim>\<open>App.A\<close>: the declarations of the two retained instances form a
  cycle. No instance is named \<^verbatim>\<open>App.X\<close>, so the loop that adds the edges throws the
  missing-middleware error before the order, and with it the cycle, is computed.
\<close>

theorem resolveMiddleware_cycle_missing_first:
  "(''App.A'', ''App.A'')
     \<in> (dep_rel [app_middleware ''A'' [RefString ''App.B'', RefString ''App.X''] (),
                  app_middleware ''B'' [RefString ''App.A''] ()])\<^sup>+
   \<and> fst (resolveMiddleware
        (strate_of \<lparr>debug = None,
           middleware = Some [app_middleware ''A'' [RefString ''App.B'', RefString ''App.X''] (),
                              app_middleware ''B'' [RefString ''App.A''] ()],
           skip = None\<rparr>) [])
     = Inl (MissingDependency ''App.A'' ''App.X'')"
  using example_cycle_dep_rel
  by (simp add: resolveMiddleware_def strate_of_def app_middleware_def
        getMiddlewareName.simps new_DepGraph_def hasNode_def addNode_def addDependency_def
        push_new_def skip_includes_def)

text \<open>
  C7, amended. When the declared dependencies of the instances \<open>ms\<close> of the configuration
  form a cycle, \<^verbatim>\<open>resolveMiddleware\<close> throws and returns no order. When moreover every
  \<^verbatim>\<open>id()\<close> is synchronous and every declared dependency is the name of an instance,
  the error is the dependency-cycle error.
\<close>

theorem resolveMiddleware_cycle:
  assumes ms: "middleware (strate_configuration s) = Some ms"
    and cyc: "(n, n) \<in> (dep_rel ms)\<^sup>+"
  shows "(\<exists>e. fst (resolveMiddleware s out) = Inl e)
       \<and> (\<forall>ns. names_of ms = Inr ns \<and> first_absent ns ms = None \<longrightarrow>
             (\<exists>p. fst (resolveMiddleware s out) = Inl (DependencyCycle p)))"
proof -
  have 2: "\<forall>ns. names_of ms = Inr ns \<and> first_absent ns ms = None \<longrightarrow>
             (\<exists>p. fst (resolveMiddleware s out) = Inl (DependencyCycle p))"
  proof (intro allI impI)
    fix ns
    assume a: "names_of ms = Inr ns \<and> first_absent ns ms = None"
    with resolveMiddleware_props [OF ms, of ns out] obtain g where
      g: "wf_graph g" "edge_rel (outgoingEdges g) = dep_rel ms"
         "fst (resolveMiddleware s out)
            = (case overallOrder g of Inl e \<Rightarrow> Inl e | Inr order \<Rightarrow> Inr (g, order))"
      by auto
    from overallOrder_cycle [OF g(1), of n] cyc g(2) obtain p where
      "overallOrder g = Inl (DependencyCycle p)" by auto
    with g(3) show "\<exists>p. fst (resolveMiddleware s out) = Inl (DependencyCycle p)" by simp
  qed
  have 1: "\<exists>e. fst (resolveMiddleware s out) = Inl e"
  proof (cases "names_of ms")
    case (Inl e)
    with resolveMiddleware_names_Inl [of s e out] ms show ?thesis by simp
  next
    case (Inr ns)
    show ?thesis
    proof (cases "first_absent ns ms")
      case None
      with 2 Inr show ?thesis by blast
    next
      case (Some ab)
      with resolveMiddleware_props [OF ms Inr, of out] show ?thesis
        by (auto split: prod.splits)
    qed
  qed
  from 1 2 show ?thesis by blast
qed

theorem resolveMiddleware_cycle_witness:
  "fst (resolveMiddleware
        (strate_of \<lparr>debug = None,
           middleware = Some [app_middleware ''A'' [RefString ''App.B''] (),
                              app_middleware ''B'' [RefString ''App.A''] ()],
           skip = None\<rparr>) [])
     = Inl (DependencyCycle [''App.A'', ''App.B'', ''App.A''])"
proof -
  let ?ms = "[app_middleware ''A'' [RefString ''App.B''] (),
              app_middleware ''B'' [RefString ''App.A''] ()]"
  let ?s = "strate_of \<lparr>debug = None, middleware = Some ?ms, skip = None\<rparr>"
  have ms: "middleware (strate_configuration ?s) = Some ?ms" by (simp add: strate_of_def)
  have "(''App.A'', ''App.B'') \<in> dep_rel ?ms" "(''App.B'', ''App.A'') \<in> dep_rel ?ms"
    by (simp_all add: dep_rel_def app_middleware_def getMiddlewareName.simps)
  then have cyc: "(''App.A'', ''App.A'') \<in> (dep_rel ?ms)\<^sup>+"
    by (meson trancl.r_into_trancl trancl.trancl_into_trancl)
  have ns: "names_of ?ms = Inr [''App.A'', ''App.B'']
            \<and> first_absent [''App.A'', ''App.B''] ?ms = None"
    by (simp add: app_middleware_def getMiddlewareName.simps)
  from resolveMiddleware_cycle [OF ms cyc, of "[]"] ns obtain p where
    p: "fst (resolveMiddleware ?s []) = Inl (DependencyCycle p)" by blast
  have "fst (resolveMiddleware ?s []) = Inl (DependencyCycle [''App.A'', ''App.B'', ''App.A''])"
    by (simp add: resolveMiddleware_def strate_of_def app_middleware_def
          getMiddlewareName.simps new_DepGraph_def hasNode_def addNode_def addDependency_def
          push_new_def overallOrder_def)
  with p show ?thesis by simp
qed

section \<open>Properties of the engine\<close>

declare next_mw.simps [simp del]

lemma getMiddlewareName_nonempty:
  "getMiddlewareName (ArgObject m) = Inr n \<Longrightarrow> n \<noteq> []"
  by (auto simp: getMiddlewareName.simps Let_def split: id_method.splits if_splits)

lemma getNodeData_Inr: "getNodeData g n = Inr d \<longleftrightarrow> map_of (nodes g) n = Some d"
  by (simp add: getNodeData_def split: option.splits)

lemma resolved_serves:
  assumes "fst (resolveMiddleware s out) = Inr (g, order)"
  shows "\<forall>name \<in> set order. name \<noteq> [] \<and>
           (\<exists>inst. getNodeData g name = Inr inst \<and> getMiddlewareName (ArgObject inst) = Inr name)"
proof
  fix name assume n: "name \<in> set order"
  from resolveMiddleware_returned [OF assms] have wf: "wf_graph g" and ok: "node_names_ok g"
    and o: "overallOrder g = Inr order" by auto
  from overallOrder_sound [OF wf o] n have "name \<in> fst ` set (nodes g)" by simp
  then obtain inst where m: "map_of (nodes g) name = Some inst"
    by (metis domD dom_map_of_conv_image_fst)
  then have "(name, inst) \<in> set (nodes g)" by (rule map_of_SomeD)
  with ok have nm: "getMiddlewareName (ArgObject inst) = Inr name"
    by (simp add: node_names_ok_def)
  from m nm getMiddlewareName_nonempty [OF nm]
  show "name \<noteq> [] \<and>
           (\<exists>inst. getNodeData g name = Inr inst \<and> getMiddlewareName (ArgObject inst) = Inr name)"
    by (auto simp: getNodeData_Inr)
qed

text \<open>
  While \<^verbatim>\<open>context.strate\<close> is intact, the calls of its loggers write their lines and
  throw nothing; and what touches neither \<^verbatim>\<open>context.strate\<close> nor
  \<^verbatim>\<open>context.hasOwnProperty\<close> leaves it intact.
\<close>

lemma strate_intact_frame:
  "strate_intact s (w\<lparr>console := c\<rparr>) = strate_intact s w"
  "strate_intact s (w\<lparr>response := r\<rparr>) = strate_intact s w"
  "strate_intact s (w\<lparr>handlerHasBeenExecuted := b\<rparr>) = strate_intact s w"
  "strate_intact s (logged helper m w) = strate_intact s w"
  "strate_intact s (printing line w) = strate_intact s w"
  by (simp_all add: strate_intact_def builtin_in_place_def logged_def printing_def)

lemma strate_intact_announced: "strate_intact s (announced s order w) = strate_intact s w"
  by (simp add: announced_def Let_def strate_intact_frame)

lemma strate_intact_createContext:
  "ctx w = createContext c (strate_debug s) (strate_warn s) \<Longrightarrow> strate_intact s w"
  by (simp add: strate_intact_def builtin_in_place_def createContext_def hasOwnProperty_def)

lemma strate_intact_builtin: "strate_intact s w \<Longrightarrow> builtin_in_place w"
  by (simp add: strate_intact_def)

lemma strate_intact_assigned:
  assumes "k \<noteq> ''strate''" and "k \<noteq> ''hasOwnProperty''" and "k \<noteq> ''__proto__''"
  shows "strate_intact s (assigned k v w) = strate_intact s w"
  using assms
  by (simp add: strate_intact_def builtin_in_place_assigned)
     (simp add: assigned_def written_own update_conv')

lemma strate_intactD:
  assumes "strate_intact s w"
  shows "\<exists>props. map_of (target (ctx w)) ''strate'' = Some (VObject props)
           \<and> map_of props ''debug'' = Some (VFunction (strate_debug s))
           \<and> map_of props ''warn'' = Some (VFunction (strate_warn s))"
proof (cases "map_of (target (ctx w)) ''strate''")
  case None
  with assms show ?thesis by (simp add: strate_intact_def)
next
  case (Some v)
  with assms show ?thesis by (cases v) (simp_all add: strate_intact_def)
qed

lemma call_strate_object:
  "proxy_get ''strate'' w = (Inr (VObject props), w1) \<Longrightarrow>
   call_strate logger m w
   = call_value (Reflect_get Object_prototype props logger) (''context.strate.'' @ logger)
       (Some m) None None None w1"
  by (simp add: call_strate_def)

lemma call_value_logger:
  "call_value (VFunction helper) callee (Some m) message statusCode additionalProps w
   = (None, logged helper m w)"
  by (simp add: call_value_def logged_def)

lemma call_strate_intact:
  assumes "strate_intact s w"
  shows "call_strate ''debug'' m w = (None, logged (strate_debug s) m w)"
    and "call_strate ''warn'' m w = (None, logged (strate_warn s) m w)"
proof -
  from strate_intactD [OF assms] obtain props where
    p: "map_of (target (ctx w)) ''strate'' = Some (VObject props)"
       "map_of props ''debug'' = Some (VFunction (strate_debug s))"
       "map_of props ''warn'' = Some (VFunction (strate_warn s))"
    by blast
  have own: "hasOwnProperty (target (ctx w)) ''strate''"
    using p(1) by (simp add: hasOwnProperty_def)
  have g: "proxy_get ''strate'' w = (Inr (VObject props), w)"
    unfolding proxy_get_builtin [OF strate_intact_builtin [OF assms]]
    using p(1) own by (simp add: Reflect_get_own)
  show "call_strate ''debug'' m w = (None, logged (strate_debug s) m w)"
    unfolding call_strate_object [OF g] Reflect_get_own [OF p(2)] call_value_logger ..
  show "call_strate ''warn'' m w = (None, logged (strate_warn s) m w)"
    unfolding call_strate_object [OF g] Reflect_get_own [OF p(3)] call_value_logger ..
qed

lemma announce_intact:
  assumes "strate_intact s w"
  shows "announce s order w = (None, announced s order w)"
proof -
  let ?w2 = "logged (strate_debug s) (''Running middleware in the following order: '' @
                                      join '' -> '' order) w"
  have i2: "strate_intact s ?w2" using assms by (simp add: strate_intact_frame)
  show ?thesis
    by (simp add: announce_def announced_def Let_def call_strate_intact(1) [where s = s]
          strate_intact_frame assms)
qed

lemma conclude_intact:
  assumes "strate_intact s w"
  shows "conclude w = (None, concluded s w)"
  by (simp add: conclude_def concluded_def call_strate_intact [OF assms])

lemma install_error_intact:
  assumes "strate_intact s w"
  shows "install_error dc dm ds w = (None, assigned ''error'' (VResponder dc dm ds) w)"
  by (simp add: install_error_def proxy_set_builtin [OF strate_intact_builtin [OF assms]])

lemma ErrorHandler_handle_sentinel:
  assumes "install_error dc dm ds w = (None, w1)" and "next_fn w1 = (Some HandledError, w2)"
  shows "ErrorHandler_handle NODE_ENV dc dm ds next_fn w = (None, w2)"
  using assms by (simp add: ErrorHandler_handle_def)

lemma next_mw_step:
  assumes "i < length order" and "order ! i \<noteq> []"
    and "getNodeData g (order ! i) = Inr inst"
    and "getMiddlewareName (ArgObject inst) = Inr (order ! i)"
    and "strate_intact s w"
  shows "next_mw g order handler i w
         = handle inst (next_mw g order handler (Suc i))
             (logged (strate_debug s) (''Running: '' @ order ! i) w)"
  using assms(1-4)
  by (subst next_mw.simps) (simp add: call_strate_intact(1) [OF assms(5)])

lemma next_mw_end:
  assumes "\<not> i < length order" and "strate_intact s w"
  shows "next_mw g order handler i w
         = handler ((logged (strate_debug s) ''Running route handler'' w)
                      \<lparr>handlerHasBeenExecuted := True\<rparr>)"
  using assms(1)
  by (subst next_mw.simps) (simp add: call_strate_intact(1) [OF assms(2)])

text \<open>
  Middleware of the form \<^verbatim>\<open>pre; await next(); post\<close> at the positions from \<open>i\<close> up to
  \<open>k\<close>: their \<open>pre\<close> parts run in order, then the chain from position \<open>k\<close>, then their
  \<open>post\<close> parts in reverse order.
\<close>

lemma next_mw_onion:
  assumes serves: "\<forall>name \<in> set (take k order). name \<noteq> [] \<and>
           (\<exists>inst. getNodeData g name = Inr inst \<and> getMiddlewareName (ArgObject inst) = Inr name
              \<and> handle inst = onion (pre name) (post name))"
    and keep: "\<forall>name \<in> set (take k order). \<forall>w. strate_intact s w \<longrightarrow> strate_intact s (pre name w)"
    and k: "k \<le> length order"
  shows "i \<le> k \<Longrightarrow> strate_intact s w \<Longrightarrow>
         strate_intact s (entered s pre (drop i (take k order)) w)
         \<and> next_mw g order handler i w
           = (case next_mw g order handler k (entered s pre (drop i (take k order)) w) of
                (Some e, w') \<Rightarrow> (Some e, w')
              | (None, w') \<Rightarrow> (None, fold post (rev (drop i (take k order))) w'))"
proof (induction "k - i" arbitrary: i w)
  case 0
  then have "drop i (take k order) = []" by simp
  then show ?case
    using 0 by (simp add: entered_def split: prod.splits option.splits)
next
  case (Suc n)
  then have i: "i < k" and n: "n = k - Suc i" and le: "Suc i \<le> k" by simp_all
  from i k have il: "i < length order" by simp
  let ?name = "order ! i"
  have mem: "?name \<in> set (take k order)"
    using i il by (metis in_set_conv_nth length_take min.absorb2 k nth_take)
  from serves mem obtain inst where
    m: "?name \<noteq> []" "getNodeData g ?name = Inr inst"
       "getMiddlewareName (ArgObject inst) = Inr ?name"
       "handle inst = onion (pre ?name) (post ?name)"
    by blast
  have d: "drop i (take k order) = ?name # drop (Suc i) (take k order)"
    using i il k by (metis Cons_nth_drop_Suc length_take min.absorb2 nth_take)
  let ?w1 = "pre ?name (logged (strate_debug s) (''Running: '' @ ?name) w)"
  have i1: "strate_intact s ?w1"
    using keep mem Suc.prems(2) by (simp add: strate_intact_frame)
  from Suc.hyps(1) [OF n le i1] show ?case
    unfolding next_mw_step [OF il m(1,2,3) Suc.prems(2)] m(4) d
    by (simp add: onion_def entered_def split: prod.splits option.splits)
qed













text \<open>
  C3, as stated, fails. \<^verbatim>\<open>Cleanup\<close> stands before the ErrorHandler in the
  configuration and depends on nothing, so it runs first; it awaits its continuation and
  then calls \<^verbatim>\<open>context.error()\<close>, which the ErrorHandler has installed by then. The
  call throws the sentinel outside the \<^verbatim>\<open>try\<close> of \<^verbatim>\<open>ErrorHandler.handle\<close>, and
  nothing else catches it: the invocation ends by throwing \<^verbatim>\<open>HandledError\<close> to
  its caller.
\<close>

theorem executeRoute_sentinel_escapes:
  "fst (executeRoute
     (strate_of \<lparr>debug = None,
        middleware = Some [app_middleware ''Cleanup'' [] (run_script [CallNext, CallError]),
                           ErrorHandler None ''ERR-0000'' ''An unspecified error occurred.'' 500],
        skip = None\<rparr>)
     (respond 200 (VString ''ok''))
     (fresh_world ()))
   = Some HandledError"
  by (simp add: executeRoute_def resolveMiddleware_def strate_of_def app_middleware_def
        ErrorHandler_def getMiddlewareName.simps new_DepGraph_def hasNode_def addNode_def
        overallOrder_def fresh_world_def quiet_def call_strate_def call_value_def
        context_eval
        announce_def conclude_def skip_nonempty_def next_mw.simps getNodeData_def respond_def
        ErrorHandler_handle_def install_error_def
        call_context_error_def error_responder_def)

text \<open>
  C3, amended. The sentinel is caught by \<^verbatim>\<open>ErrorHandler.handle\<close>, wherever the
  ErrorHandler stands in the resolved order. Let \<^verbatim>\<open>context.strate\<close> be intact when
  \<^verbatim>\<open>executeRoute\<close> is called, let the middleware before the ErrorHandler in the order
  (there may be none) run \<open>pre name\<close>, await their continuation once, and run
  \<open>post name\<close>, leaving \<^verbatim>\<open>context.strate\<close> intact, and let the rest of the chain
  (the middleware after the ErrorHandler and the route handler), run from the state in
  which the ErrorHandler calls its continuation, end by throwing the sentinel, in a state
  \<open>w2\<close> where \<^verbatim>\<open>context.strate\<close> is intact. Then \<^verbatim>\<open>ErrorHandler.handle\<close> catches
  the sentinel and returns, the middleware before it run their \<open>post\<close> parts, and the
  invocation ends normally, with the diagnostic of \<^verbatim>\<open>executeRoute\<close>.
\<close>

theorem executeRoute_sentinel_caught:
  assumes r: "resolveMiddleware s
                (console (logged (strate_debug s) ''Generating middleware graph'' w))
                = (Inr (graph, order), out)"
    and split: "order = before @ eh # rest"
    and up: "\<forall>name \<in> set before. \<exists>inst. getNodeData graph name = Inr inst
                \<and> handle inst = onion (pre name) (post name)"
    and inst: "getNodeData graph eh = Inr inst"
    and hdl: "handle inst = ErrorHandler_handle NODE_ENV dc dm ds"
    and intact: "strate_intact s w"
    and keep: "\<forall>name \<in> set before. \<forall>w. strate_intact s w
                \<longrightarrow> strate_intact s (pre name w) \<and> strate_intact s (post name w)"
    and raised: "next_mw graph order handler (Suc (length before))
                   (assigned ''error'' (VResponder dc dm ds)
                      (logged (strate_debug s) (''Running: '' @ eh)
                         (entered s pre before
                            (announced s order
                               ((logged (strate_debug s) ''Generating middleware graph'' w)
                                  \<lparr>console := out\<rparr>)))))
                 = (Some HandledError, w2)"
    and intact2: "strate_intact s w2"
  shows "executeRoute s handler w = (None, concluded s (fold post (rev before) w2))"
proof -
  let ?w1 = "logged (strate_debug s) ''Generating middleware graph'' w"
  let ?w4 = "announced s order (?w1\<lparr>console := out\<rparr>)"
  let ?w5 = "entered s pre before ?w4"
  let ?k = "length before"
  from r have "fst (resolveMiddleware s (console ?w1)) = Inr (graph, order)" by simp
  note sv = resolved_serves [OF this]
  have t: "take ?k order = before" unfolding split by simp
  have sub: "set before \<subseteq> set order" unfolding split by auto
  have ehm: "eh \<in> set order" unfolding split by simp
  have serves: "\<forall>name \<in> set (take ?k order). name \<noteq> [] \<and>
           (\<exists>inst. getNodeData graph name = Inr inst
              \<and> getMiddlewareName (ArgObject inst) = Inr name
              \<and> handle inst = onion (pre name) (post name))"
    unfolding t
  proof
    fix name assume b: "name \<in> set before"
    with sub have "name \<in> set order" by blast
    with sv obtain i1 where 1: "name \<noteq> []" "getNodeData graph name = Inr i1"
      "getMiddlewareName (ArgObject i1) = Inr name" by blast
    from up b obtain i2 where 2: "getNodeData graph name = Inr i2"
      "handle i2 = onion (pre name) (post name)" by blast
    from 1(2) 2(1) have "i1 = i2" by simp
    with 1 2 show "name \<noteq> [] \<and>
           (\<exists>inst. getNodeData graph name = Inr inst
              \<and> getMiddlewareName (ArgObject inst) = Inr name
              \<and> handle inst = onion (pre name) (post name))" by blast
  qed
  from keep have keep_pre: "\<forall>name \<in> set (take ?k order). \<forall>w. strate_intact s w
                \<longrightarrow> strate_intact s (pre name w)"
    unfolding t by blast
  have kl: "?k \<le> length order" "?k < length order" "order ! ?k = eh"
    unfolding split by simp_all
  from sv ehm obtain i1 where 1: "eh \<noteq> []" "getNodeData graph eh = Inr i1"
      "getMiddlewareName (ArgObject i1) = Inr eh" by blast
  from 1(2) inst have "i1 = inst" by simp
  with 1 have n: "order ! ?k \<noteq> []" "getNodeData graph (order ! ?k) = Inr inst"
    "getMiddlewareName (ArgObject inst) = Inr (order ! ?k)"
    unfolding kl(3) by simp_all
  have i4: "strate_intact s ?w4"
    using intact by (simp add: strate_intact_announced strate_intact_frame)
  from next_mw_onion [OF serves keep_pre kl(1), where i = 0 and w = ?w4 and handler = handler] i4
  have i5: "strate_intact s ?w5"
    and c: "next_mw graph order handler 0 ?w4
            = (case next_mw graph order handler ?k ?w5 of
                (Some e, w') \<Rightarrow> (Some e, w')
              | (None, w') \<Rightarrow> (None, fold post (rev before) w'))"
    unfolding t drop_0 by simp_all
  let ?w6 = "logged (strate_debug s) (''Running: '' @ eh) ?w5"
  have i6: "strate_intact s ?w6" using i5 by (simp add: strate_intact_frame)
  have "next_mw graph order handler ?k ?w5
        = ErrorHandler_handle NODE_ENV dc dm ds (next_mw graph order handler (Suc ?k)) ?w6"
    unfolding next_mw_step [OF kl(2) n i5] hdl kl(3) ..
  also have "\<dots> = (None, w2)"
    by (rule ErrorHandler_handle_sentinel
          [where next_fn = "next_mw graph order handler (Suc ?k)",
           OF install_error_intact [OF i6] raised])
  finally have e: "next_mw graph order handler ?k ?w5 = (None, w2)" .
  have c': "next_mw graph order handler 0 ?w4 = (None, fold post (rev before) w2)"
    unfolding c e by simp
  have posts: "strate_intact s w' \<Longrightarrow> set names \<subseteq> set before
                 \<Longrightarrow> strate_intact s (fold post names w')" for w' names
    using keep by (induction names arbitrary: w') auto
  have "strate_intact s (fold post (rev before) w2)"
    using intact2 by (rule posts) simp
  note cl = conclude_intact [OF this]
  have i1': "strate_intact s (?w1\<lparr>console := out\<rparr>)"
    using intact by (simp add: strate_intact_frame)
  show ?thesis
    unfolding executeRoute_def call_strate_intact(1) [OF intact]
    by (simp add: r announce_intact [OF i1'] c' cl)
qed

theorem executeRoute_sentinel_caught_witness:
  "executeRoute
     (strate_of \<lparr>debug = None,
        middleware = Some
          [app_middleware ''Timer'' [] (onion (printing ''start'') (printing ''stop'')),
           ErrorHandler None ''ERR-0000'' ''An unspecified error occurred.'' 500,
           app_middleware ''Guard''
             [RefClass \<lparr>cls_name = ''ErrorHandler'', cls_namespace = Some ''Strate''\<rparr>]
             (run_script [CallError, CallNext])],
        skip = None\<rparr>)
     (respond 200 (VString ''ok''))
     (fresh_world ())
   = (None,
      (assigned ''error'' (VResponder ''ERR-0000'' ''An unspecified error occurred.'' 500)
         (fresh_world ()))
        \<lparr>console := [''start'', ''stop''],
         response := [(500, VObject [(''error'',
                        VObject [(''code'', VString ''ERR-0000''),
                                 (''message'', VString ''An unspecified error occurred.'')])])]\<rparr>)"
proof -
  let ?T = "app_middleware ''Timer'' []
              (onion (printing ''start'') (printing ''stop'') :: unit handle_fn)"
  let ?B = "app_middleware ''Guard''
             [RefClass \<lparr>cls_name = ''ErrorHandler'', cls_namespace = Some ''Strate''\<rparr>]
             (run_script [CallError, CallNext] :: unit handle_fn)"
  let ?E = "ErrorHandler None ''ERR-0000'' ''An unspecified error occurred.'' 500
              :: (unit handle_fn) Middleware"
  let ?s = "strate_of \<lparr>debug = None, middleware = Some [?T, ?E, ?B], skip = None\<rparr>"
  let ?g = "\<lparr>nodes = [(''App.Timer'', ?T), (''Strate.ErrorHandler'', ?E), (''App.Guard'', ?B)],
             outgoingEdges = [(''App.Timer'', []), (''Strate.ErrorHandler'', []),
                              (''App.Guard'', [''Strate.ErrorHandler''])],
             incomingEdges = [(''App.Timer'', []), (''Strate.ErrorHandler'', [''App.Guard'']),
                              (''App.Guard'', [])]\<rparr>"
  let ?order = "[''App.Timer'', ''Strate.ErrorHandler'', ''App.Guard'']"
  let ?pre = "\<lambda>name :: string. printing ''start'' :: unit world \<Rightarrow> unit world"
  let ?post = "\<lambda>name :: string. printing ''stop'' :: unit world \<Rightarrow> unit world"
  let ?w2 = "(assigned ''error'' (VResponder ''ERR-0000'' ''An unspecified error occurred.'' 500)
               (fresh_world ()))
        \<lparr>console := [''start''],
         response := [(500, VObject [(''error'',
                        VObject [(''code'', VString ''ERR-0000''),
                                 (''message'', VString ''An unspecified error occurred.'')])])]\<rparr>
          :: unit world"
  have r: "resolveMiddleware ?s
             (console (logged (strate_debug ?s) ''Generating middleware graph'' (fresh_world ())))
             = (Inr (?g, ?order), [])"
    by (simp add: resolveMiddleware_def strate_of_def app_middleware_def ErrorHandler_def
          getMiddlewareName.simps new_DepGraph_def hasNode_def addNode_def addDependency_def
          push_new_def overallOrder_def logged_def fresh_world_def quiet_def)
  have split: "?order = [''App.Timer''] @ ''Strate.ErrorHandler'' # [''App.Guard'']" by simp
  have up: "\<forall>name \<in> set [''App.Timer'']. \<exists>inst. getNodeData ?g name = Inr inst
                \<and> handle inst = onion (?pre name) (?post name)"
    by (simp add: getNodeData_def app_middleware_def)
  have inst: "getNodeData ?g ''Strate.ErrorHandler'' = Inr ?E"
    by (simp add: getNodeData_def)
  have hdl: "handle ?E = ErrorHandler_handle None ''ERR-0000'' ''An unspecified error occurred.'' 500"
    by (simp add: ErrorHandler_def)
  have intact: "strate_intact ?s (fresh_world ())"
    by (rule strate_intact_createContext [of _ "()"]) (simp add: fresh_world_def strate_of_def)
  have keep: "\<forall>name \<in> set [''App.Timer'']. \<forall>w. strate_intact ?s w
                \<longrightarrow> strate_intact ?s (?pre name w) \<and> strate_intact ?s (?post name w)"
    by (simp add: strate_intact_frame)
  have raised: "next_mw ?g ?order (respond 200 (VString ''ok'')) (Suc (length [''App.Timer'']))
                   (assigned ''error'' (VResponder ''ERR-0000'' ''An unspecified error occurred.'' 500)
                      (logged (strate_debug ?s) (''Running: '' @ ''Strate.ErrorHandler'')
                         (entered ?s ?pre [''App.Timer'']
                            (announced ?s ?order
                               ((logged (strate_debug ?s) ''Generating middleware graph''
                                   (fresh_world ()))\<lparr>console := []\<rparr>)))))
                 = (Some HandledError, ?w2)"
    by (simp add: strate_of_def app_middleware_def
        ErrorHandler_def getMiddlewareName.simps
        logged_def fresh_world_def quiet_def printing_def entered_def assigned_def
        announced_def skip_nonempty_def next_mw.simps getNodeData_def respond_def
        call_strate_def call_value_def
        context_eval
        call_context_error_def error_responder_def)
  have intact2: "strate_intact ?s ?w2"
    using intact by (simp add: strate_intact_frame strate_intact_assigned)
  show ?thesis
    unfolding executeRoute_sentinel_caught [OF r split up inst hdl intact keep raised intact2]
    by (simp add: concluded_def logged_def strate_of_def quiet_def printing_def
          fresh_world_def assigned_def context_eval)
qed

section \<open>Further properties\<close>

text \<open>
  Two instances with the same identity: the graph keeps one node, with the instance
  registered last, and \<^verbatim>\<open>strate.warn\<close> is called with the message for the duplicate.
\<close>

theorem addMiddlewareToGraph_duplicate:
  assumes "getMiddlewareName (ArgObject m1) = Inr n" and "getMiddlewareName (ArgObject m2) = Inr n"
  shows "addMiddlewareToGraph s [m1, m2] new_DepGraph out
         = (Inr \<lparr>nodes = [(n, m2)], outgoingEdges = [(n, [])], incomingEdges = [(n, [])]\<rparr>,
            strate_warn s (duplicate_message s m2 n) out)"
  using assms
  by (simp add: new_DepGraph_def hasNode_def addNode_def setNodeData_def Let_def)

theorem addMiddlewareToGraph_duplicate_witness:
  "addMiddlewareToGraph \<lparr>strate_configuration = \<lparr>debug = Some True, middleware = None, skip = None\<rparr>,
                          strate_warn = (\<lambda>m out. out @ [m]), strate_debug = quiet\<rparr>
     [app_middleware ''Cache'' [] False, app_middleware ''Cache'' [] True] new_DepGraph []
   = (Inr \<lparr>nodes = [(''App.Cache'', app_middleware ''Cache'' [] True)],
           outgoingEdges = [(''App.Cache'', [])], incomingEdges = [(''App.Cache'', [])]\<rparr>,
      [duplicate_message \<lparr>strate_configuration = \<lparr>debug = Some True, middleware = None, skip = None\<rparr>,
                          strate_warn = (\<lambda>m out. out @ [m]), strate_debug = quiet\<rparr>
         (app_middleware ''Cache'' [] True) ''App.Cache''])"
proof -
  have a: "getMiddlewareName (ArgObject (app_middleware ''Cache'' [] False)) = Inr ''App.Cache''"
    and b: "getMiddlewareName (ArgObject (app_middleware ''Cache'' [] True)) = Inr ''App.Cache''"
    by (simp_all add: app_middleware_def getMiddlewareName.simps)
  from addMiddlewareToGraph_duplicate [OF a b] show ?thesis by simp
qed

text \<open>
  The empty middleware list: \<^verbatim>\<open>executeRoute\<close> runs the route handler directly, after
  the engine's own log lines, and ends with the diagnostic.
\<close>

theorem executeRoute_empty:
  assumes "middleware (strate_configuration s) = Some []" and "strate_intact s w"
  shows "executeRoute s handler w
         = (case handler
                  ((logged (strate_debug s) ''Running route handler''
                      (announced s []
                         (logged (strate_debug s) ''Generating middleware graph'' w)))
                   \<lparr>handlerHasBeenExecuted := True\<rparr>) of
              (Some e, w') \<Rightarrow> (Some e, w')
            | (None, w') \<Rightarrow> conclude w')"
proof -
  let ?w1 = "logged (strate_debug s) ''Generating middleware graph'' w"
  have i1: "strate_intact s ?w1" using assms(2) by (simp add: strate_intact_frame)
  have i4: "strate_intact s (announced s [] ?w1)"
    using i1 by (simp add: strate_intact_announced)
  have r: "resolveMiddleware s (console ?w1)
           = (Inr (new_DepGraph, []), console ?w1)"
    using assms(1) by (simp add: resolveMiddleware_def new_DepGraph_def overallOrder_def)
  have c: "?w1\<lparr>console := console ?w1\<rparr> = ?w1" by simp
  show ?thesis
    by (simp add: executeRoute_def call_strate_intact(1) [OF assms(2)] r c
          announce_intact [OF i1] next_mw_end [OF _ i4] split: prod.splits option.splits)
qed

theorem executeRoute_empty_witness:
  "executeRoute (strate_of \<lparr>debug = None, middleware = Some [], skip = None\<rparr>)
     (respond 200 (VString ''ok'')) (fresh_world ())
   = (None, (fresh_world ())\<lparr>response := [(200, VString ''ok'')],
                              handlerHasBeenExecuted := True\<rparr>)"
proof -
  let ?s = "strate_of \<lparr>debug = None, middleware = Some [], skip = None\<rparr>
             :: (unit handle_fn) strate"
  have m: "middleware (strate_configuration ?s) = Some []"
    by (simp add: strate_of_def)
  have intact: "strate_intact ?s (fresh_world ())"
    by (rule strate_intact_createContext [of _ "()"]) (simp add: fresh_world_def strate_of_def)
  let ?w = "(fresh_world ())\<lparr>response := [(200, VString ''ok'')],
                              handlerHasBeenExecuted := True\<rparr> :: unit world"
  have i: "strate_intact ?s ?w" using intact by (simp add: strate_intact_frame)
  from executeRoute_empty [OF m intact, of "respond 200 (VString ''ok'')"]
  show ?thesis
    by (simp add: respond_def announced_def logged_def strate_of_def
          quiet_def fresh_world_def skip_nonempty_def conclude_def call_strate_def
          call_value_def context_eval)
qed

text \<open>
  A middleware that never calls its continuation: the route handler does not run, no
  response of the handler is sent, and the invocation ends with the warning that the
  handler was not executed.
\<close>

theorem executeRoute_short_circuit:
  assumes r: "resolveMiddleware s
                (console (logged (strate_debug s) ''Generating middleware graph'' w))
                = (Inr (graph, order), out)"
    and first: "order = name # rest"
    and inst: "getNodeData graph name = Inr inst"
    and hdl: "handle inst = (\<lambda>next_fn w. (None, printing line w))"
    and intact: "strate_intact s w"
  shows "executeRoute s handler w
         = (None, logged (strate_warn s) not_executed_message
                    (printing line
                       (logged (strate_debug s) (''Running: '' @ name)
                          (announced s order
                             ((logged (strate_debug s) ''Generating middleware graph'' w)
                                \<lparr>console := out\<rparr>)))))"
proof -
  let ?w1 = "logged (strate_debug s) ''Generating middleware graph'' w"
  let ?w4 = "announced s order (?w1\<lparr>console := out\<rparr>)"
  let ?w5 = "printing line (logged (strate_debug s) (''Running: '' @ name) ?w4)"
  from r have "fst (resolveMiddleware s (console ?w1)) = Inr (graph, order)" by simp
  from resolved_serves [OF this] first inst have
    n: "name \<noteq> []" "getMiddlewareName (ArgObject inst) = Inr name"
    by auto
  have i: "0 < length order" "order ! 0 = name" using first by simp_all
  have i4: "strate_intact s ?w4"
    using intact by (simp add: strate_intact_announced strate_intact_frame)
  have i5: "strate_intact s ?w5" using i4 by (simp add: strate_intact_frame)
  have c: "next_mw graph order handler 0 ?w4 = (None, ?w5)"
    using next_mw_step [OF i(1) _ _ _ i4, where g = graph and inst = inst and handler = handler] i n inst hdl by simp
  have f: "\<not> handlerHasBeenExecuted ?w5"
    by (simp add: printing_def logged_def announced_def Let_def)
  have "executeRoute s handler w
        = (case next_mw graph order handler 0 ?w4 of
             (Some e, w5) \<Rightarrow> (Some e, w5)
           | (None, w5) \<Rightarrow> conclude w5)"
    using r
    by (simp add: executeRoute_def call_strate_intact(1) [OF intact]
          announce_intact [of s "?w1\<lparr>console := out\<rparr>"] intact strate_intact_frame)
  also have "\<dots> = conclude ?w5"
    unfolding c by simp
  also have "\<dots> = (None, logged (strate_warn s) not_executed_message ?w5)"
    unfolding conclude_intact [OF i5] concluded_def using f by simp
  finally show ?thesis .
qed

theorem executeRoute_short_circuit_witness:
  "executeRoute
     \<lparr>strate_configuration =
        \<lparr>debug = None,
         middleware = Some [app_middleware ''Bouncer'' [] (\<lambda>next_fn w. (None, printing ''denied'' w))],
         skip = None\<rparr>,
      strate_warn = recorder, strate_debug = quiet\<rparr>
     (respond 200 (VString ''ok'')) (world_of (createContext () quiet recorder))
   = (None, (world_of (createContext () quiet recorder))
              \<lparr>console := [''denied'', not_executed_message]\<rparr>)"
proof -
  let ?B = "app_middleware ''Bouncer'' [] ((\<lambda>next_fn w. (None, printing ''denied'' w)) :: unit handle_fn)"
  let ?s = "\<lparr>strate_configuration = \<lparr>debug = None, middleware = Some [?B], skip = None\<rparr>,
             strate_warn = recorder, strate_debug = quiet\<rparr>"
  let ?g = "\<lparr>nodes = [(''App.Bouncer'', ?B)], outgoingEdges = [(''App.Bouncer'', [])],
             incomingEdges = [(''App.Bouncer'', [])]\<rparr>"
  let ?init = "world_of (createContext () quiet recorder) :: unit world"
  have r: "resolveMiddleware ?s
             (console (logged (strate_debug ?s) ''Generating middleware graph'' ?init))
             = (Inr (?g, [''App.Bouncer'']), [])"
    by (simp add: resolveMiddleware_def app_middleware_def
          getMiddlewareName.simps new_DepGraph_def hasNode_def addNode_def
          overallOrder_def logged_def world_of_def quiet_def)
  have inst: "getNodeData ?g ''App.Bouncer'' = Inr ?B" by (simp add: getNodeData_def)
  have hdl: "handle ?B = (\<lambda>next_fn w. (None, printing ''denied'' w))"
    by (simp add: app_middleware_def)
  have intact: "strate_intact ?s ?init"
    by (rule strate_intact_createContext [of _ "()"]) (simp add: world_of_def)
  show ?thesis
    unfolding executeRoute_short_circuit [OF r refl inst hdl intact]
    by (simp add: announced_def logged_def quiet_def recorder_def printing_def
          world_of_def skip_nonempty_def)
qed

text \<open>
  A middleware after the ErrorHandler that reassigns \<^verbatim>\<open>context.strate\<close> and then calls
  \<^verbatim>\<open>context.error()\<close>: the ErrorHandler catches the sentinel, and the diagnostic at
  the end of \<^verbatim>\<open>executeRoute\<close>, which calls \<^verbatim>\<open>context.strate.warn\<close>, throws a
  \<^verbatim>\<open>TypeError\<close> to the caller.
\<close>

theorem executeRoute_sentinel_then_TypeError:
  "fst (executeRoute
     (strate_of \<lparr>debug = None,
        middleware = Some
          [ErrorHandler None ''ERR-0000'' ''An unspecified error occurred.'' 500,
           app_middleware ''Breaker'' []
             (\<lambda>next_fn w. call_context_error None None None None
                             (assigned ''strate'' (VNumber 1) w))],
        skip = None\<rparr>)
     (respond 200 (VString ''ok''))
     (fresh_world ()))
   = Some (TypeError ''context.strate.warn is not a function'')"
  by (simp add: executeRoute_def resolveMiddleware_def strate_of_def app_middleware_def
        ErrorHandler_def getMiddlewareName.simps new_DepGraph_def hasNode_def addNode_def
        overallOrder_def fresh_world_def quiet_def call_strate_def call_value_def
        context_eval assigned_def
        announce_def conclude_def skip_nonempty_def next_mw.simps getNodeData_def respond_def
        ErrorHandler_handle_def install_error_def
        call_context_error_def error_responder_def)

text \<open>
  A prototype put in the place of \<^verbatim>\<open>Object.prototype\<close> by an assignment to
  \<^verbatim>\<open>context.__proto__\<close>: its properties are inherited, so a read of one of them
  warns and yields the inherited value; and when it is \<^verbatim>\<open>null\<close>, or shadows
  \<^verbatim>\<open>hasOwnProperty\<close> with a number, every later read throws a \<^verbatim>\<open>TypeError\<close>.
\<close>

theorem context_prototype_replaced:
  "proxy_get ''tenant''
     (snd (proxy_set ''__proto__'' (VObject [(''tenant'', VString ''acme'')])
             (world_of (createContext () quiet recorder))))
   = (Inr (VString ''acme''),
      (world_of (createContext () quiet recorder))
        \<lparr>console := [not_found_message ''tenant''],
         ctx := (createContext () quiet recorder)
                  \<lparr>prototype := VObject [(''tenant'', VString ''acme'')]\<rparr>\<rparr>)
   \<and> fst (proxy_get ''user''
            (snd (proxy_set ''__proto__'' VNull (world_of (createContext () quiet recorder)))))
       = Inl (TypeError ''target.hasOwnProperty is not a function'')
   \<and> fst (proxy_get ''user''
            (snd (proxy_set ''__proto__'' (VObject [(''hasOwnProperty'', VNumber 1)])
                    (world_of (createContext () quiet recorder)))))
       = Inl (TypeError ''target.hasOwnProperty is not a function'')"
  by (simp add: context_eval world_of_def recorder_def)

end
